theory Spec2Isabelle
  imports Complex_Main
begin

section \<open>Python strings\<close>

text \<open>
  A Python \<open>str\<close> is a sequence of code points. It is modelled as \<open>string\<close>, each
  \<open>char\<close> standing for the code point of the same number, so the model covers the
  texts whose code points are below 256 (ASCII and Latin-1); \<open>length\<close> counts code
  points as \<open>len\<close> does. Font sizes and coordinates are Python floats, used only
  under \<open>max\<close>, \<open>min\<close> and comparisons with constants; they are modelled as reals.
\<close>

definition code :: "char \<Rightarrow> nat" where
  "code c = of_char c"

text \<open>\<open>str.isspace\<close> on one code point below 256 (also the class \<open>\s\<close> of \<open>re\<close>).\<close>

definition is_space :: "char \<Rightarrow> bool" where
  "is_space c = ((9 \<le> code c \<and> code c \<le> 13) \<or> (28 \<le> code c \<and> code c \<le> 32)
                 \<or> code c = 133 \<or> code c = 160)"

text \<open>The class \<open>\d\<close> of \<open>re\<close>: the decimal digits; below 256 these are 0 to 9.\<close>

definition is_digit :: "char \<Rightarrow> bool" where
  "is_digit c = (48 \<le> code c \<and> code c \<le> 57)"

definition is_ascii_upper :: "char \<Rightarrow> bool" where
  "is_ascii_upper c = (65 \<le> code c \<and> code c \<le> 90)"

definition is_ascii_lower :: "char \<Rightarrow> bool" where
  "is_ascii_lower c = (97 \<le> code c \<and> code c \<le> 122)"

text \<open>Upper-case and lower-case code points below 256, as \<open>str.isupper\<close> and
  \<open>str.islower\<close> see them.\<close>

definition is_upper_char :: "char \<Rightarrow> bool" where
  "is_upper_char c = (is_ascii_upper c \<or> (192 \<le> code c \<and> code c \<le> 222 \<and> code c \<noteq> 215))"

definition is_lower_char :: "char \<Rightarrow> bool" where
  "is_lower_char c = (is_ascii_lower c \<or> code c = 170 \<or> code c = 181 \<or> code c = 186
                      \<or> (223 \<le> code c \<and> code c \<le> 255 \<and> code c \<noteq> 247))"

definition lower_char :: "char \<Rightarrow> char" where
  "lower_char c = (if is_upper_char c then char_of (code c + 32) else c)"

text \<open>\<open>s.lower()\<close>\<close>

definition lower :: "string \<Rightarrow> string" where
  "lower s = map lower_char s"

text \<open>\<open>s.isupper()\<close>: no lower-case character and at least one upper-case one.\<close>

definition isupper :: "string \<Rightarrow> bool" where
  "isupper s = (list_all (\<lambda>c. \<not> is_lower_char c) s \<and> list_ex is_upper_char s)"

text \<open>\<open>s.strip()\<close>\<close>

definition strip :: "string \<Rightarrow> string" where
  "strip s = rev (dropWhile is_space (rev (dropWhile is_space s)))"

text \<open>\<open>s.startswith(p)\<close>\<close>

definition startswith :: "string \<Rightarrow> string \<Rightarrow> bool" where
  "startswith s p = (take (length p) s = p)"

text \<open>\<open>p in s\<close> for strings: \<open>p\<close> occurs in \<open>s\<close> as a contiguous substring.\<close>

fun str_in :: "string \<Rightarrow> string \<Rightarrow> bool" where
  "str_in p [] = (p = [])"
| "str_in p (c # cs) = (startswith (c # cs) p \<or> str_in p cs)"

section \<open>Regular expressions of the \<open>re\<close> module\<close>

text \<open>
  The patterns of the source use character classes, concatenation, \<open>?\<close>, \<open>*\<close>, \<open>+\<close>,
  a counted repetition and the anchors \<open>^\<close> and \<open>$\<close>. \<open>re.match\<close> succeeds when some
  prefix of the text matches the pattern, so the leading \<open>^\<close> adds nothing. A pattern is
  matched by taking derivatives character by character.
\<close>

datatype rx =
    Nul
  | Eps
  | Cls "char \<Rightarrow> bool"
  | Seq rx rx
  | Alt rx rx
  | Star rx

fun nullable :: "rx \<Rightarrow> bool" where
  "nullable Nul = False"
| "nullable Eps = True"
| "nullable (Cls p) = False"
| "nullable (Seq a b) = (nullable a \<and> nullable b)"
| "nullable (Alt a b) = (nullable a \<or> nullable b)"
| "nullable (Star a) = True"

fun deriv :: "char \<Rightarrow> rx \<Rightarrow> rx" where
  "deriv c Nul = Nul"
| "deriv c Eps = Nul"
| "deriv c (Cls p) = (if p c then Eps else Nul)"
| "deriv c (Seq a b) =
     (if nullable a then Alt (Seq (deriv c a) b) (deriv c b) else Seq (deriv c a) b)"
| "deriv c (Alt a b) = Alt (deriv c a) (deriv c b)"
| "deriv c (Star a) = Seq (deriv c a) (Star a)"

text \<open>
  The texts a pattern denotes; the matcher is measured against them in
  \<open>fullmatch_lang\<close> and \<open>re_match_lang\<close>.
\<close>

inductive_set star :: "string set \<Rightarrow> string set" for A :: "string set" where
  star_empty: "[] \<in> star A"
| star_step: "u \<in> A \<Longrightarrow> v \<in> star A \<Longrightarrow> u @ v \<in> star A"

fun lang :: "rx \<Rightarrow> string set" where
  "lang Nul = {}"
| "lang Eps = {[]}"
| "lang (Cls p) = {[c] |c. p c}"
| "lang (Seq a b) = {u @ v |u v. u \<in> lang a \<and> v \<in> lang b}"
| "lang (Alt a b) = lang a \<union> lang b"
| "lang (Star a) = star (lang a)"

text \<open>The whole text matches the pattern.\<close>

fun fullmatch :: "rx \<Rightarrow> string \<Rightarrow> bool" where
  "fullmatch r [] = nullable r"
| "fullmatch r (c # cs) = fullmatch (deriv c r) cs"

text \<open>\<open>re.match(r, s)\<close> for a pattern without \<open>$\<close>: some prefix of the text matches.\<close>

fun re_match :: "rx \<Rightarrow> string \<Rightarrow> bool" where
  "re_match r [] = nullable r"
| "re_match r (c # cs) = (nullable r \<or> re_match (deriv c r) cs)"

text \<open>\<open>re.match(r$, s)\<close>: \<open>$\<close> holds at the end of the text and just before a newline
  that ends the text.\<close>

definition re_match_end :: "rx \<Rightarrow> string \<Rightarrow> bool" where
  "re_match_end r s =
     (fullmatch r s \<or> (s \<noteq> [] \<and> last s = CHR 0x0A \<and> fullmatch r (butlast s)))"

definition Chr :: "char \<Rightarrow> rx" where
  "Chr c = Cls (\<lambda>x. x = c)"

definition Lit :: "string \<Rightarrow> rx" where
  "Lit s = foldr (\<lambda>c r. Seq (Chr c) r) s Eps"

definition Seqs :: "rx list \<Rightarrow> rx" where
  "Seqs rs = foldr Seq rs Eps"

definition Plus :: "rx \<Rightarrow> rx" where
  "Plus r = Seq r (Star r)"

definition Opt :: "rx \<Rightarrow> rx" where
  "Opt r = Alt r Eps"

text \<open>\<open>.\<close>: any character but a newline.\<close>

definition Dot :: rx where
  "Dot = Cls (\<lambda>c. c \<noteq> CHR 0x0A)"

definition Digit :: rx where
  "Digit = Cls is_digit"

definition Space :: rx where
  "Space = Cls is_space"

text \<open>\<open>[A-Za-z]\<close>, \<open>[a-z]\<close>, \<open>[MKB]\<close>, \<open>[A-Z\s]\<close>\<close>

definition Letter :: rx where
  "Letter = Cls (\<lambda>c. is_ascii_upper c \<or> is_ascii_lower c)"

definition LowerLetter :: rx where
  "LowerLetter = Cls is_ascii_lower"

definition MKB :: rx where
  "MKB = Cls (\<lambda>c. c = CHR ''M'' \<or> c = CHR ''K'' \<or> c = CHR ''B'')"

definition UpperOrSpace :: rx where
  "UpperOrSpace = Cls (\<lambda>c. is_ascii_upper c \<or> is_space c)"

text \<open>\<open>^RFP:.*\d{4}$\<close>\<close>

definition rx_rfp_year :: rx where
  "rx_rfp_year = Seqs [Lit ''RFP:'', Star Dot, Digit, Digit, Digit, Digit]"

text \<open>\<open>^\d+$\<close>\<close>

definition rx_number :: rx where
  "rx_number = Plus Digit"

text \<open>\<open>^\d+\.\s*[a-z]\<close>\<close>

definition rx_list_item :: rx where
  "rx_list_item = Seqs [Plus Digit, Chr CHR ''.'', Star Space, LowerLetter]"

text \<open>\<open>^\d+\.\d+\s*[A-Za-z]\<close>\<close>

definition rx_sub_item :: rx where
  "rx_sub_item = Seqs [Plus Digit, Chr CHR ''.'', Plus Digit, Star Space, Letter]"

text \<open>\<open>^\$?\d+[MKB]?\$?\d+[MKB]?$\<close>\<close>

definition rx_money :: rx where
  "rx_money = Seqs [Opt (Chr CHR ''$''), Plus Digit, Opt MKB,
                    Opt (Chr CHR ''$''), Plus Digit, Opt MKB]"

text \<open>\<open>^[A-Z\s]+\$\d+[MKB]\<close>\<close>

definition rx_label_money :: rx where
  "rx_label_money = Seqs [Plus UpperOrSpace, Chr CHR ''$'', Plus Digit, MKB]"

text \<open>\<open>^\d+\.(\d+)?\s+[A-Za-z]\<close>\<close>

definition rx_numbered_heading :: rx where
  "rx_numbered_heading = Seqs [Plus Digit, Chr CHR ''.'', Opt (Plus Digit), Plus Space, Letter]"

section \<open>The document, as the PDF library hands it over\<close>

text \<open>
  A span carries its text, its font size, its style flags and its bounding box
  \<open>(x0, y0, x1, y1)\<close>; \<open>bbox[1]\<close> is the top \<open>y0\<close>. A line holds spans. A block either
  has a \<open>"lines"\<close> member or not (an image). A page answers \<open>get_text()\<close> with its plain
  text and \<open>get_text("dict")\<close> with its blocks; each call may raise instead. A document
  is the sequence of its pages.
\<close>

datatype exn = PyException string

record span =
  span_text :: string
  span_size :: real
  span_flags :: int
  span_bbox :: "real \<times> real \<times> real \<times> real"

record line =
  spans :: "span list"

datatype block = TextBlock (lines: "line list") | NoLines

record pdf_page =
  get_text :: "exn + string"
  get_text_dict :: "exn + block list"

type_synonym doc = "pdf_page list"

definition bbox1 :: "span \<Rightarrow> real" where
  "bbox1 s = fst (snd (span_bbox s))"

text \<open>\<open>span["flags"] & 2**4\<close> as a truth value\<close>

definition flag_bold :: "span \<Rightarrow> bool" where
  "flag_bold s = (and (span_flags s) (2 ^ 4) \<noteq> 0)"

section \<open>\<open>_extract_title\<close>\<close>

text \<open>The four variables of the span loop; \<open>None\<close> is \<open>float('inf')\<close>.\<close>

record title_acc =
  t_text :: string
  t_size :: real
  t_bold :: bool
  t_pos :: "real option"

definition title_init :: title_acc where
  "title_init = \<lparr>t_text = [], t_size = 0, t_bold = False, t_pos = None\<rparr>"

definition title_span :: "span \<Rightarrow> title_acc \<Rightarrow> title_acc" where
  "title_span s a =
     \<lparr>t_text = t_text a @ span_text s,
      t_size = max (t_size a) (span_size s),
      t_bold = (if flag_bold s then True else t_bold a),
      t_pos = (case t_pos a of None \<Rightarrow> Some (bbox1 s)
               | Some y \<Rightarrow> Some (min y (bbox1 s)))\<rparr>"

definition title_block :: "line list \<Rightarrow> title_acc" where
  "title_block ls = fold (\<lambda>l a. fold title_span (spans l) a) ls title_init"

record candidate =
  c_text :: string
  c_size :: real
  c_bold :: bool
  c_position :: "real option"

definition title_step :: "block \<Rightarrow> candidate list \<Rightarrow> candidate list" where
  "title_step b candidates =
     (case b of
        NoLines \<Rightarrow> candidates
      | TextBlock ls \<Rightarrow>
          (let a = title_block ls; block_text = strip (t_text a)
           in if length block_text > 10 \<and> length block_text < 200
              then candidates @ [\<lparr>c_text = block_text, c_size = t_size a,
                                   c_bold = t_bold a, c_position = t_pos a\<rparr>]
              else candidates))"

definition title_candidates :: "block list \<Rightarrow> candidate list" where
  "title_candidates blocks = fold title_step blocks []"

definition score :: "candidate \<Rightarrow> int" where
  "score c =
     (if c_bold c then 3 else 0)
     + (if c_size c > 16 then 2 else if c_size c > 14 then 1 else 0)
     + (case c_position c of None \<Rightarrow> 0 | Some y \<Rightarrow> if y < 200 then 2 else 0)"

text \<open>\<open>max(xs, key=f)\<close> on a non-empty list: a later element replaces the best one only
  when its key is strictly greater.\<close>

fun max_by :: "('a \<Rightarrow> int) \<Rightarrow> 'a \<Rightarrow> 'a list \<Rightarrow> 'a" where
  "max_by f best [] = best"
| "max_by f best (x # xs) = max_by f (if f x > f best then x else best) xs"

definition extract_title :: "doc \<Rightarrow> exn + string" where
  "extract_title d =
     (if length d = 0 then Inr []
      else case get_text_dict (d ! 0) of
             Inl e \<Rightarrow> Inl e
           | Inr blocks \<Rightarrow>
               (case title_candidates blocks of
                  [] \<Rightarrow> Inr []
                | c # cs \<Rightarrow>
                    (let best_candidate = max_by score c cs
                     in Inr (if score best_candidate > 2 then c_text best_candidate else []))))"

section \<open>Heading candidates\<close>

text \<open>\<open>any(pattern in text for pattern in patterns)\<close>\<close>

definition any_in :: "string list \<Rightarrow> string \<Rightarrow> bool" where
  "any_in patterns t = list_ex (\<lambda>pattern. str_in pattern t) patterns"

definition garbage_patterns :: "string list" where
  "garbage_patterns =
     [replicate 76 CHR ''.'', replicate 63 CHR ''.'', replicate 41 CHR ''.'',
      ''www.'', ''.com'', ''.org'']"

definition form_patterns :: "string list" where
  "form_patterns =
     [''name of the government servant'', ''designation'', ''service'', ''pay + si + npa'',
      ''whether permanent or temporary'', ''home town as recorded'',
      ''amount of advance required'']"

text \<open>
  The first \<open>startswith\<close> of the source tests for a three-character literal whose second
  character is U+20AC. No text of the model holds that code point, so the test is
  \<open>False\<close> here.
\<close>

definition is_obviously_not_heading :: "string \<Rightarrow> bool" where
  "is_obviously_not_heading t =
     (if length t < 3 \<or> length t > 200 then True
      else if any_in garbage_patterns t then True
      else if any_in form_patterns (lower t) then True
      else if re_match_end rx_rfp_year t \<or> re_match_end rx_number t then True
      else if length t > 100 \<and> list_ex (\<lambda>ch. str_in [ch] t) ''.,;:'' then True
      else if False \<or> startswith t ''-'' \<or> startswith t ''*'' then True
      else if re_match rx_list_item (lower t) then True
      else if re_match rx_sub_item t then True
      else if re_match_end rx_money t then True
      else if re_match rx_label_money t then True
      else False)"

definition tech_headings :: "string list" where
  "tech_headings =
     [''revision history'', ''table of contents'', ''acknowledgements'',
      ''introduction'', ''references'', ''trademarks'', ''documents'',
      ''intended audience'', ''career paths'', ''learning objectives'',
      ''entry requirements'', ''structure and course duration'',
      ''keeping it current'', ''business outcomes'', ''content'']"

definition business_headings :: "string list" where
  "business_headings =
     [''background'', ''summary'', ''milestones'', ''approach'',
      ''evaluation'', ''appendix'', ''terms of reference'']"

definition is_likely_heading :: "string \<Rightarrow> real \<Rightarrow> bool \<Rightarrow> string \<Rightarrow> bool" where
  "is_likely_heading t sz is_bold doc_text_lower =
     (if re_match rx_numbered_heading t then True
      else if isupper t \<and> length t > 5 then True
      else if is_bold \<and> sz > 14 then True
      else if sz > 16 then True
      else if str_in ''foundation level'' doc_text_lower
        then (if any_in tech_headings (lower t) then True else False)
      else if str_in ''rfp'' doc_text_lower \<or> str_in ''digital library'' doc_text_lower
        then (if any_in business_headings (lower t) then True else False)
      else if str_in ''pathway options'' doc_text_lower \<or> str_in ''stem pathways'' doc_text_lower
        then (if str_in ''pathway options'' (lower t) then True else False)
      else if str_in ''hope to see you'' doc_text_lower \<or> str_in ''rsvp'' doc_text_lower
        then (if str_in ''hope to see you there'' (lower t) then True else False)
      else False)"

record heading_acc =
  a_text :: string
  a_size :: real
  a_bold :: bool

definition heading_init :: heading_acc where
  "heading_init = \<lparr>a_text = [], a_size = 0, a_bold = False\<rparr>"

definition heading_span :: "span \<Rightarrow> heading_acc \<Rightarrow> heading_acc" where
  "heading_span s a =
     \<lparr>a_text = a_text a @ span_text s,
      a_size = max (a_size a) (span_size s),
      a_bold = (if flag_bold s then True else a_bold a)\<rparr>"

definition heading_block :: "line list \<Rightarrow> heading_acc" where
  "heading_block ls = fold (\<lambda>l a. fold heading_span (spans l) a) ls heading_init"

record heading =
  h_text :: string
  h_size :: real
  h_bold :: bool
  h_page :: nat

definition heading_step :: "nat \<Rightarrow> string \<Rightarrow> block \<Rightarrow> heading list \<Rightarrow> heading list" where
  "heading_step page_num doc_text_lower b headings =
     (case b of
        NoLines \<Rightarrow> headings
      | TextBlock ls \<Rightarrow>
          (let a = heading_block ls; block_text = strip (a_text a)
           in if block_text = [] \<or> length block_text < 3 \<or> length block_text > 200
                then headings
              else if is_obviously_not_heading block_text then headings
              else if is_likely_heading block_text (a_size a) (a_bold a) doc_text_lower
                then headings @ [\<lparr>h_text = block_text, h_size = a_size a,
                                   h_bold = a_bold a, h_page = page_num\<rparr>]
              else headings))"

definition extract_headings_from_page :: "pdf_page \<Rightarrow> nat \<Rightarrow> string \<Rightarrow> exn + heading list" where
  "extract_headings_from_page p page_num doc_text_lower =
     (case get_text_dict p of
        Inl e \<Rightarrow> Inl e
      | Inr blocks \<Rightarrow> Inr (fold (heading_step page_num doc_text_lower) blocks []))"

section \<open>\<open>_filter_headings\<close>\<close>

record entry =
  e_level :: string
  e_text :: string
  e_page :: nat

text \<open>The deduplication loop, with its set \<open>seen\<close> and its list \<open>unique_headings\<close>.\<close>

fun unique_loop :: "heading list \<Rightarrow> string set \<Rightarrow> heading list \<Rightarrow> heading list" where
  "unique_loop [] seen unique_headings = unique_headings"
| "unique_loop (h # hs) seen unique_headings =
     (let t = strip (h_text h)
      in if t \<notin> seen then unique_loop hs (insert t seen) (unique_headings @ [h])
         else unique_loop hs seen unique_headings)"

text \<open>The loop that returns at the first heading whose lower-cased text holds the key.\<close>

fun first_with :: "string \<Rightarrow> heading list \<Rightarrow> entry list" where
  "first_with k [] = []"
| "first_with k (h # hs) =
     (if str_in k (lower (h_text h))
      then [\<lparr>e_level = ''H1'', e_text = h_text h, e_page = 0\<rparr>]
      else first_with k hs)"

definition level_of :: "string \<Rightarrow> heading \<Rightarrow> string" where
  "level_of doc_text_lower h =
     (let t = lower (h_text h)
      in if str_in ''rfp'' doc_text_lower \<or> str_in ''digital library'' doc_text_lower
         then (if any_in [''summary'', ''background'', ''milestones'', ''approach'', ''evaluation''] t
                 then ''H1''
               else if any_in [''appendix'', ''terms of reference'', ''membership''] t
                 then ''H2''
               else ''H3'')
         else (if h_size h > 16 then ''H1''
               else if h_size h > 14 then ''H2''
               else ''H3''))"

definition leveled :: "string \<Rightarrow> heading \<Rightarrow> entry" where
  "leveled doc_text_lower h =
     \<lparr>e_level = level_of doc_text_lower h, e_text = h_text h, e_page = h_page h\<rparr>"

text \<open>\<open>list.sort(key=...)\<close> is a stable sort; so is \<open>sort_key\<close>.\<close>

definition filter_headings :: "heading list \<Rightarrow> string \<Rightarrow> entry list" where
  "filter_headings headings doc_text_lower =
     (if headings = [] then []
      else
        (let unique_headings = unique_loop headings {} []
         in if str_in ''pathway options'' doc_text_lower \<or> str_in ''stem pathways'' doc_text_lower
              then first_with ''pathway options'' unique_headings
            else if str_in ''hope to see you'' doc_text_lower \<or> str_in ''rsvp'' doc_text_lower
              then first_with ''hope to see you there'' unique_headings
            else sort_key e_page (map (leveled doc_text_lower) unique_headings)))"

section \<open>\<open>_extract_headings\<close> and \<open>extract_outline\<close>\<close>

text \<open>\<open>doc_text += doc[i].get_text()\<close> over the pages given\<close>

fun concat_text :: "pdf_page list \<Rightarrow> string \<Rightarrow> exn + string" where
  "concat_text [] doc_text = Inr doc_text"
| "concat_text (p # ps) doc_text =
     (case get_text p of
        Inl e \<Rightarrow> Inl e
      | Inr t \<Rightarrow> concat_text ps (doc_text @ t))"

text \<open>The loop over all pages, from page number \<open>page_num\<close> on.\<close>

fun page_loop :: "pdf_page list \<Rightarrow> nat \<Rightarrow> string \<Rightarrow> heading list \<Rightarrow> exn + heading list" where
  "page_loop [] page_num doc_text_lower all_headings = Inr all_headings"
| "page_loop (p # ps) page_num doc_text_lower all_headings =
     (case extract_headings_from_page p page_num doc_text_lower of
        Inl e \<Rightarrow> Inl e
      | Inr page_headings \<Rightarrow>
          page_loop ps (Suc page_num) doc_text_lower (all_headings @ page_headings))"

definition is_form :: "string \<Rightarrow> bool" where
  "is_form doc_text_lower =
     (str_in ''application form'' doc_text_lower \<or> str_in ''government servant'' doc_text_lower)"

definition extract_headings :: "doc \<Rightarrow> exn + entry list" where
  "extract_headings d =
     (case concat_text (take (min 3 (length d)) d) [] of
        Inl e \<Rightarrow> Inl e
      | Inr doc_text \<Rightarrow>
          (let doc_text_lower = lower doc_text
           in if is_form doc_text_lower then Inr []
              else case page_loop d 0 doc_text_lower [] of
                     Inl e \<Rightarrow> Inl e
                   | Inr all_headings \<Rightarrow> Inr (filter_headings all_headings doc_text_lower)))"

record outline_record =
  title :: string
  outline :: "entry list"

text \<open>
  What \<open>extract_outline\<close> does to the world: the lines it prints and the state of the
  document handle. \<open>fitz.open\<close> is the library's; it is a parameter, and it either raises
  or hands over a document. The standard output is a parameter too: given the line to
  print it either takes the line or makes \<open>print\<close> raise (an encoding that cannot
  represent the line, a closed or broken stream).
\<close>

datatype handle = Unopened | Opened | Closed

record world =
  console :: "string list"
  doc_handle :: handle

text \<open>The body of the \<open>try\<close>.\<close>

definition try_body :: "(string \<Rightarrow> exn + doc) \<Rightarrow> string \<Rightarrow> world \<Rightarrow> (exn + outline_record) \<times> world" where
  "try_body fitz_open pdf_path w =
     (case fitz_open pdf_path of
        Inl e \<Rightarrow> (Inl e, w)
      | Inr d \<Rightarrow>
          (let w1 = w\<lparr>doc_handle := Opened\<rparr>
           in case extract_title d of
                Inl e \<Rightarrow> (Inl e, w1)
              | Inr t \<Rightarrow>
                  (case extract_headings d of
                     Inl e \<Rightarrow> (Inl e, w1)
                   | Inr ol \<Rightarrow> (Inr \<lparr>title = t, outline = ol\<rparr>, w1\<lparr>doc_handle := Closed\<rparr>))))"

definition str_exn :: "exn \<Rightarrow> string" where
  "str_exn e = (case e of PyException m \<Rightarrow> m)"

definition default_output :: outline_record where
  "default_output = \<lparr>title = [], outline = []\<rparr>"

text \<open>The line of the handler: \<open>f"Error processing {pdf_path}: {e}"\<close>\<close>

definition error_line :: "string \<Rightarrow> exn \<Rightarrow> string" where
  "error_line pdf_path e = ''Error processing '' @ pdf_path @ '': '' @ str_exn e"

text \<open>\<open>print(line)\<close>: the line reaches the console, or the exception of the standard
  output is raised and nothing is printed.\<close>

definition py_print :: "(string \<Rightarrow> exn option) \<Rightarrow> string \<Rightarrow> world \<Rightarrow> (exn + unit) \<times> world" where
  "py_print stdout msg w =
     (case stdout msg of
        Some e \<Rightarrow> (Inl e, w)
      | None \<Rightarrow> (Inr (), w\<lparr>console := console w @ [msg]\<rparr>))"

text \<open>
  The \<open>try\<close> statement. The handler is outside the \<open>try\<close> body: an exception of its
  \<open>print\<close> is not caught and leaves \<open>extract_outline\<close>.
\<close>

definition extract_outline ::
  "(string \<Rightarrow> exn + doc) \<Rightarrow> (string \<Rightarrow> exn option) \<Rightarrow> string \<Rightarrow> world
     \<Rightarrow> (exn + outline_record) \<times> world" where
  "extract_outline fitz_open stdout pdf_path w =
     (case try_body fitz_open pdf_path w of
        (Inr r, w') \<Rightarrow> (Inr r, w')
      | (Inl e, w') \<Rightarrow>
          (case py_print stdout (error_line pdf_path e) w' of
             (Inl e', w'') \<Rightarrow> (Inl e', w'')
           | (Inr u, w'') \<Rightarrow> (Inr default_output, w'')))"

section \<open>Notions used to state the properties\<close>

text \<open>A heading candidate has passed the exclusion rules.\<close>

definition passed :: "heading \<Rightarrow> bool" where
  "passed h = (\<not> is_obviously_not_heading (h_text h))"

text \<open>
  The levelling rule of the RFP and digital-library profile, in the words of the
  specification: H1 when the lower-cased text holds one of summary, background,
  milestones, approach, evaluation; else H2 when it holds one of appendix, terms of
  reference, membership; else H3.
\<close>

definition rfp_level :: "string \<Rightarrow> string" where
  "rfp_level t =
     (if str_in ''summary'' (lower t) \<or> str_in ''background'' (lower t)
         \<or> str_in ''milestones'' (lower t) \<or> str_in ''approach'' (lower t)
         \<or> str_in ''evaluation'' (lower t)
        then ''H1''
      else if str_in ''appendix'' (lower t) \<or> str_in ''terms of reference'' (lower t)
         \<or> str_in ''membership'' (lower t)
        then ''H2''
      else ''H3'')"

text \<open>
  The title candidates in the words of the specification: the blocks of page 0 that
  have lines and whose stripped text is longer than 10 and shorter than 200, each with
  its stripped text and its score: 3 if any span is bold, plus 2 if the greatest font
  size is above 16 or else 1 if it is above 14, plus 2 if the least top coordinate is
  below 200. The greatest font size of a block starts from 0, as in the source.
\<close>

definition block_spans :: "block \<Rightarrow> span list" where
  "block_spans b = (case b of NoLines \<Rightarrow> [] | TextBlock ls \<Rightarrow> concat (map spans ls))"

definition spec_text :: "block \<Rightarrow> string" where
  "spec_text b = strip (concat (map span_text (block_spans b)))"

definition spec_bold :: "block \<Rightarrow> bool" where
  "spec_bold b = list_ex flag_bold (block_spans b)"

definition spec_max_size :: "block \<Rightarrow> real" where
  "spec_max_size b = Max (set (0 # map span_size (block_spans b)))"

definition spec_min_y :: "block \<Rightarrow> real option" where
  "spec_min_y b =
     (if block_spans b = [] then None else Some (Min (set (map bbox1 (block_spans b)))))"

definition spec_score :: "block \<Rightarrow> int" where
  "spec_score b =
     (if spec_bold b then 3 else 0)
     + (if spec_max_size b > 16 then 2 else if spec_max_size b > 14 then 1 else 0)
     + (case spec_min_y b of None \<Rightarrow> 0 | Some y \<Rightarrow> if y < 200 then 2 else 0)"

definition spec_title_block :: "block \<Rightarrow> bool" where
  "spec_title_block b =
     (b \<noteq> NoLines \<and> 10 < length (spec_text b) \<and> length (spec_text b) < 200)"

definition spec_title_candidates :: "block list \<Rightarrow> (string \<times> int) list" where
  "spec_title_candidates blocks =
     map (\<lambda>b. (spec_text b, spec_score b)) (filter spec_title_block blocks)"

section \<open>Example documents\<close>

definition w0 :: world where
  "w0 = \<lparr>console = [], doc_handle = Unopened\<rparr>"

definition mk_span :: "string \<Rightarrow> real \<Rightarrow> int \<Rightarrow> real \<Rightarrow> span" where
  "mk_span t sz fl y = \<lparr>span_text = t, span_size = sz, span_flags = fl, span_bbox = (72, y, 500, y + sz)\<rparr>"

text \<open>A block of one line of one span.\<close>

definition one_block :: "string \<Rightarrow> real \<Rightarrow> int \<Rightarrow> real \<Rightarrow> block" where
  "one_block t sz fl y = TextBlock [\<lparr>spans = [mk_span t sz fl y]\<rparr>]"

definition mk_page :: "string \<Rightarrow> block list \<Rightarrow> pdf_page" where
  "mk_page t bs = \<lparr>get_text = Inr t, get_text_dict = Inr bs\<rparr>"

text \<open>A page whose structured text cannot be read.\<close>

definition broken_page :: pdf_page where
  "broken_page = \<lparr>get_text = Inr ''text'', get_text_dict = Inl (PyException ''cannot load page'')\<rparr>"

definition open_as :: "doc \<Rightarrow> string \<Rightarrow> exn + doc" where
  "open_as d pdf_path = Inr d"

definition open_fails :: "string \<Rightarrow> exn + doc" where
  "open_fails pdf_path = Inl (PyException ''cannot open file'')"

text \<open>A standard output that takes every line.\<close>

definition stdout_ok :: "string \<Rightarrow> exn option" where
  "stdout_ok msg = None"

text \<open>A standard output with the ASCII encoding: \<open>print\<close> raises on a line that holds
  a code point above 127.\<close>

definition stdout_ascii :: "string \<Rightarrow> exn option" where
  "stdout_ascii msg =
     (if list_all (\<lambda>c. code c < 128) msg then None
      else Some (PyException ''UnicodeEncodeError''))"

text \<open>A path with a code point above 127 (U+00E9).\<close>

definition cafe_pdf :: string where
  "cafe_pdf = ''caf'' @ [CHR 0xE9] @ ''.pdf''"

text \<open>One page, generic profile: a bold 18pt block "1.2 Scope".\<close>

definition scope_page :: pdf_page where
  "scope_page = mk_page ''Report 1.2 Scope'' [one_block '' 1.2 Scope '' 18 16 120]"

text \<open>One page, generic profile: a bold 18pt block "Web Services Overview" and a bold
  18pt block "Project Overview".\<close>

definition services_page :: pdf_page where
  "services_page = mk_page ''Web Services Overview Project Overview''
     [one_block ''Web Services Overview'' 18 16 80, one_block ''Project Overview'' 18 16 140]"

text \<open>One page of a form, with an upper-case block that passes both sets of rules.\<close>

definition form_page :: pdf_page where
  "form_page = mk_page ''APPLICATION FORM for grant of LTC advance''
     [one_block ''LTC ADVANCE'' 18 16 60]"

text \<open>Two pages, generic profile; "Overview" is printed on both.\<close>

definition report_doc :: doc where
  "report_doc =
     [mk_page ''Overview Details''
        [one_block ''Overview'' 18 16 80, one_block ''Details'' 15 16 300],
      mk_page ''Overview Conclusion''
        [one_block ''Overview'' 18 16 80, one_block ''Conclusion'' 18 0 300]]"

definition mk_heading :: "string \<Rightarrow> real \<Rightarrow> nat \<Rightarrow> heading" where
  "mk_heading t sz pg = \<lparr>h_text = t, h_size = sz, h_bold = False, h_page = pg\<rparr>"

text \<open>Headings handed to \<open>_filter_headings\<close> out of page order, one text twice.\<close>

definition shuffled_headings :: "heading list" where
  "shuffled_headings =
     [mk_heading ''Beta'' 18 1, mk_heading ''Alpha'' 15 0,
      mk_heading ''Beta'' 12 2, mk_heading ''Gamma'' 12 1]"

text \<open>A flyer: the block "PATHWAY OPTIONS" is on the second page.\<close>

definition flyer_doc :: doc where
  "flyer_doc =
     [mk_page ''STEM Pathways for parents'' [one_block ''PARENTS GUIDE'' 18 16 80],
      mk_page ''Pathway choices'' [one_block ''PATHWAY OPTIONS'' 20 0 90]]"

text \<open>A request for proposals, one page.\<close>

definition rfp_doc :: doc where
  "rfp_doc =
     [mk_page ''RFP: Request for Proposal''
        [one_block ''Executive Summary'' 12 0 80, one_block ''Appendix A'' 12 0 200,
         one_block ''Timeline'' 18 16 300]]"

text \<open>
  The blocks of a first page: an image, a short block, a body paragraph, two blocks of
  score 7 and one of score 4. The second block of score 7 is set in two spans, the
  second one bold.
\<close>

definition cover_blocks :: "block list" where
  "cover_blocks =
     [NoLines,
      one_block ''Page 1'' 20 16 20,
      one_block ''This paragraph is body text.'' 11 0 400,
      one_block ''  Annual Report 2024  '' 18 16 50,
      TextBlock [\<lparr>spans = [mk_span ''Prepared by '' 12 0 90]\<rparr>,
                 \<lparr>spans = [mk_span ''the Finance Office'' 17 16 110]\<rparr>],
      one_block ''Confidential draft'' 15 16 700]"

definition cover_page :: pdf_page where
  "cover_page = mk_page ''Annual Report'' cover_blocks"

section \<open>Auxiliary facts\<close>


subsection \<open>The matcher and the texts a pattern denotes\<close>

lemma nullable_lang: "nullable r \<longleftrightarrow> [] \<in> lang r"
  by (induction r) (auto intro: star.star_empty)

lemma star_cons_split:
  "w \<in> star A \<Longrightarrow> w = c # s \<Longrightarrow> \<exists>u v. s = u @ v \<and> c # u \<in> A \<and> v \<in> star A"
proof (induction w rule: star.induct)
  case star_empty
  then show ?case by simp
next
  case (star_step u v)
  show ?case
  proof (cases u)
    case Nil
    then have "v = c # s" using star_step.prems by simp
    then show ?thesis using star_step.IH by simp
  next
    case (Cons a u')
    then have "a = c" "s = u' @ v" using star_step.prems by simp_all
    then show ?thesis using star_step.hyps Cons by blast
  qed
qed

lemma star_cons:
  "c # s \<in> star A \<longleftrightarrow> (\<exists>u v. s = u @ v \<and> c # u \<in> A \<and> v \<in> star A)"
proof
  assume "c # s \<in> star A"
  then show "\<exists>u v. s = u @ v \<and> c # u \<in> A \<and> v \<in> star A"
    using star_cons_split by blast
next
  assume "\<exists>u v. s = u @ v \<and> c # u \<in> A \<and> v \<in> star A"
  then obtain u v where uv: "s = u @ v" "c # u \<in> A" "v \<in> star A" by blast
  then have "(c # u) @ v \<in> star A" by (blast intro: star.star_step)
  then show "c # s \<in> star A" using uv(1) by simp
qed

lemma lang_Seq_app: "u \<in> lang a \<Longrightarrow> v \<in> lang b \<Longrightarrow> u @ v \<in> lang (Seq a b)"
  by auto

lemma deriv_lang: "s \<in> lang (deriv c r) \<longleftrightarrow> c # s \<in> lang r"
proof (induction r arbitrary: s)
  case Nul
  then show ?case by simp
next
  case Eps
  then show ?case by simp
next
  case (Cls p)
  then show ?case by auto
next
  case (Seq a b)
  have "c # s \<in> lang (Seq a b) \<longleftrightarrow>
        (\<exists>u v. s = u @ v \<and> c # u \<in> lang a \<and> v \<in> lang b) \<or> ([] \<in> lang a \<and> c # s \<in> lang b)"
  proof
    assume "c # s \<in> lang (Seq a b)"
    then obtain u v where uv: "c # s = u @ v" "u \<in> lang a" "v \<in> lang b" by auto
    show "(\<exists>u v. s = u @ v \<and> c # u \<in> lang a \<and> v \<in> lang b) \<or> ([] \<in> lang a \<and> c # s \<in> lang b)"
    proof (cases u)
      case Nil
      then show ?thesis using uv by simp
    next
      case (Cons x u')
      then have "x = c" "s = u' @ v" using uv(1) by simp_all
      then show ?thesis using uv(2,3) Cons by blast
    qed
  next
    assume "(\<exists>u v. s = u @ v \<and> c # u \<in> lang a \<and> v \<in> lang b) \<or> ([] \<in> lang a \<and> c # s \<in> lang b)"
    then show "c # s \<in> lang (Seq a b)"
    proof
      assume "\<exists>u v. s = u @ v \<and> c # u \<in> lang a \<and> v \<in> lang b"
      then obtain u v where uv: "s = u @ v" "c # u \<in> lang a" "v \<in> lang b" by blast
      have "(c # u) @ v \<in> lang (Seq a b)" using uv(2,3) by (rule lang_Seq_app)
      then show ?thesis using uv(1) by simp
    next
      assume "[] \<in> lang a \<and> c # s \<in> lang b"
      then have "[] @ (c # s) \<in> lang (Seq a b)" by (blast intro: lang_Seq_app)
      then show ?thesis by simp
    qed
  qed
  moreover have "s \<in> lang (deriv c (Seq a b)) \<longleftrightarrow>
        (\<exists>u v. s = u @ v \<and> c # u \<in> lang a \<and> v \<in> lang b) \<or> ([] \<in> lang a \<and> c # s \<in> lang b)"
    using Seq.IH by (auto simp: nullable_lang)
  ultimately show ?case by blast
next
  case (Alt a b)
  then show ?case by simp
next
  case (Star a)
  have "s \<in> lang (deriv c (Star a)) \<longleftrightarrow> (\<exists>u v. s = u @ v \<and> c # u \<in> lang a \<and> v \<in> star (lang a))"
    using Star.IH by auto
  then show ?case by (simp add: star_cons)
qed

lemma fullmatch_lang: "fullmatch r s \<longleftrightarrow> s \<in> lang r"
  by (induction s arbitrary: r) (simp_all add: nullable_lang deriv_lang)

lemma re_match_lang: "re_match r s \<longleftrightarrow> (\<exists>u v. s = u @ v \<and> u \<in> lang r)"
proof (induction s arbitrary: r)
  case Nil
  then show ?case by (simp add: nullable_lang)
next
  case (Cons c s)
  have "(\<exists>u v. c # s = u @ v \<and> u \<in> lang r) \<longleftrightarrow>
        [] \<in> lang r \<or> (\<exists>u v. s = u @ v \<and> c # u \<in> lang r)"
  proof
    assume "\<exists>u v. c # s = u @ v \<and> u \<in> lang r"
    then obtain u v where uv: "c # s = u @ v" "u \<in> lang r" by blast
    show "[] \<in> lang r \<or> (\<exists>u v. s = u @ v \<and> c # u \<in> lang r)"
    proof (cases u)
      case Nil
      then show ?thesis using uv by simp
    next
      case (Cons x u')
      then have "x = c" "s = u' @ v" using uv(1) by simp_all
      then show ?thesis using uv(2) Cons by blast
    qed
  next
    assume "[] \<in> lang r \<or> (\<exists>u v. s = u @ v \<and> c # u \<in> lang r)"
    then show "\<exists>u v. c # s = u @ v \<and> u \<in> lang r"
    proof
      assume "[] \<in> lang r"
      then have "c # s = [] @ (c # s) \<and> [] \<in> lang r" by simp
      then show ?thesis by blast
    next
      assume "\<exists>u v. s = u @ v \<and> c # u \<in> lang r"
      then obtain u v where "s = u @ v" "c # u \<in> lang r" by blast
      then have "c # s = (c # u) @ v \<and> c # u \<in> lang r" by simp
      then show ?thesis by blast
    qed
  qed
  then show ?case using Cons.IH [of "deriv c r"] by (simp add: nullable_lang deriv_lang)
qed

subsection \<open>Substrings\<close>

lemma startswith_iff: "startswith s p \<longleftrightarrow> (\<exists>b. s = p @ b)"
proof
  assume "startswith s p"
  then have "s = p @ drop (length p) s"
    unfolding startswith_def by (metis append_take_drop_id)
  then show "\<exists>b. s = p @ b" ..
next
  assume "\<exists>b. s = p @ b"
  then show "startswith s p" unfolding startswith_def by auto
qed

lemma str_in_iff: "str_in p t \<longleftrightarrow> (\<exists>a b. t = a @ p @ b)"
proof (induction t)
  case Nil
  then show ?case by auto
next
  case (Cons c cs)
  show ?case
  proof
    assume "str_in p (c # cs)"
    then consider "startswith (c # cs) p" | "str_in p cs" by auto
    then show "\<exists>a b. c # cs = a @ p @ b"
    proof cases
      case 1
      then obtain b where "c # cs = p @ b" using startswith_iff by blast
      then have "c # cs = [] @ p @ b" by simp
      then show ?thesis by blast
    next
      case 2
      then obtain a b where "cs = a @ p @ b" using Cons.IH by blast
      then have "c # cs = (c # a) @ p @ b" by simp
      then show ?thesis by blast
    qed
  next
    assume "\<exists>a b. c # cs = a @ p @ b"
    then obtain a b where ab: "c # cs = a @ p @ b" by blast
    show "str_in p (c # cs)"
    proof (cases a)
      case Nil
      then have "startswith (c # cs) p" using ab startswith_iff by auto
      then show ?thesis by simp
    next
      case (Cons x a')
      then have "cs = a' @ p @ b" using ab by simp
      then have "str_in p cs" using Cons.IH by blast
      then show ?thesis by simp
    qed
  qed
qed

subsection \<open>What a heading candidate has passed\<close>

lemma heading_step_passed:
  "\<forall>h\<in>set acc. passed h \<Longrightarrow> \<forall>h\<in>set (heading_step n dt b acc). passed h"
  by (cases b) (auto simp: heading_step_def Let_def passed_def)

lemma fold_heading_step_passed:
  "\<forall>h\<in>set acc. passed h \<Longrightarrow> \<forall>h\<in>set (fold (heading_step n dt) bs acc). passed h"
proof (induction bs arbitrary: acc)
  case Nil
  then show ?case by simp
next
  case (Cons b bs)
  have "\<forall>h\<in>set (heading_step n dt b acc). passed h"
    using Cons.prems by (rule heading_step_passed)
  then show ?case using Cons.IH by simp
qed

lemma from_page_passed:
  "extract_headings_from_page p n dt = Inr hs \<Longrightarrow> \<forall>h\<in>set hs. passed h"
  unfolding extract_headings_from_page_def
  using fold_heading_step_passed [of "[]" n dt]
  by (auto split: sum.splits)

lemma page_loop_passed:
  "page_loop ps n dt acc = Inr all \<Longrightarrow> \<forall>h\<in>set acc. passed h \<Longrightarrow> \<forall>h\<in>set all. passed h"
proof (induction ps arbitrary: n acc)
  case Nil
  then show ?case by simp
next
  case (Cons p ps)
  from Cons.prems(1) obtain hs where
    hs: "extract_headings_from_page p n dt = Inr hs"
    and rest: "page_loop ps (Suc n) dt (acc @ hs) = Inr all"
    by (auto split: sum.splits)
  have "\<forall>h\<in>set (acc @ hs). passed h"
    using Cons.prems(2) from_page_passed [OF hs] by auto
  then show ?case using Cons.IH [OF rest] by blast
qed

lemma unique_loop_subset:
  "set (unique_loop hs seen acc) \<subseteq> set acc \<union> set hs"
  by (induction hs seen acc rule: unique_loop.induct) (auto simp: Let_def split: if_splits)

lemma first_with_cases:
  "first_with k hs = [] \<or>
   (\<exists>h\<in>set hs. str_in k (lower (h_text h)) \<and>
      first_with k hs = [\<lparr>e_level = ''H1'', e_text = h_text h, e_page = 0\<rparr>])"
  by (induction hs) auto

lemma filter_headings_text:
  assumes "e \<in> set (filter_headings hs dt)"
  shows "\<exists>h\<in>set hs. e_text e = h_text h"
proof -
  let ?u = "unique_loop hs {} []"
  have u: "set ?u \<subseteq> set hs" using unique_loop_subset [of hs "{}" "[]"] by simp
  have "\<exists>h\<in>set ?u. e_text e = h_text h"
  proof (cases "str_in ''pathway options'' dt \<or> str_in ''stem pathways'' dt")
    case True
    then have "e \<in> set (first_with ''pathway options'' ?u)"
      using assms by (auto simp: filter_headings_def Let_def split: if_splits)
    then show ?thesis using first_with_cases [of "''pathway options''" ?u] by auto
  next
    case np: False
    show ?thesis
    proof (cases "str_in ''hope to see you'' dt \<or> str_in ''rsvp'' dt")
      case True
      then have "e \<in> set (first_with ''hope to see you there'' ?u)"
        using assms np by (auto simp: filter_headings_def Let_def split: if_splits)
      then show ?thesis using first_with_cases [of "''hope to see you there''" ?u] by auto
    next
      case False
      then have "e \<in> set (map (leveled dt) ?u)"
        using assms np by (auto simp: filter_headings_def Let_def split: if_splits)
      then show ?thesis by (auto simp: leveled_def)
    qed
  qed
  then show ?thesis using u by blast
qed

lemma extract_headings_cases:
  assumes "extract_headings d = Inr ol"
  shows "ol = [] \<or>
    (\<exists>doc_text all. concat_text (take (min 3 (length d)) d) [] = Inr doc_text
       \<and> \<not> is_form (lower doc_text)
       \<and> page_loop d 0 (lower doc_text) [] = Inr all
       \<and> ol = filter_headings all (lower doc_text))"
  using assms unfolding extract_headings_def
  by (auto simp: Let_def split: sum.splits if_splits)

lemma extract_outline_cases:
  assumes "extract_outline fitz_open stdout pdf_path w = (Inr r, w')"
  shows "r = default_output \<or>
    (\<exists>d t ol. fitz_open pdf_path = Inr d \<and> extract_title d = Inr t
       \<and> extract_headings d = Inr ol \<and> r = \<lparr>title = t, outline = ol\<rparr>)"
  using assms unfolding extract_outline_def try_body_def py_print_def
  by (auto simp: Let_def split: sum.splits prod.splits option.splits)

lemma extract_headings_passed:
  assumes "extract_headings d = Inr ol" and "e \<in> set ol"
  shows "\<not> is_obviously_not_heading (e_text e)"
proof -
  from extract_headings_cases [OF assms(1)] assms(2)
  obtain doc_text all where
    loop: "page_loop d 0 (lower doc_text) [] = Inr all"
    and ol: "ol = filter_headings all (lower doc_text)"
    by auto
  from assms(2) ol obtain h where h: "h \<in> set all" "e_text e = h_text h"
    using filter_headings_text by blast
  have "passed h" using page_loop_passed [OF loop] h(1) by simp
  then show ?thesis using h(2) by (simp add: passed_def)
qed

lemma outline_passed:
  assumes "extract_outline fitz_open stdout pdf_path w = (Inr r, w')" and "e \<in> set (outline r)"
  shows "\<not> is_obviously_not_heading (e_text e)"
  using extract_outline_cases [OF assms(1)] assms(2) extract_headings_passed
  by (auto simp: default_output_def)

subsection \<open>The exclusion rules\<close>

lemma form_label_excluded:
  "any_in form_patterns (lower t) \<Longrightarrow> is_obviously_not_heading t"
  by (simp add: is_obviously_not_heading_def)

lemma not_excluded_no_label:
  assumes "\<not> is_obviously_not_heading t"
  shows "\<not> str_in ''service'' (lower t) \<and> \<not> str_in ''designation'' (lower t)"
proof -
  have "\<not> any_in form_patterns (lower t)" using assms form_label_excluded by blast
  then show ?thesis by (simp add: any_in_def form_patterns_def)
qed

subsection \<open>The text of the first pages\<close>

lemma concat_text_Inr:
  "map get_text ps = map Inr ts \<Longrightarrow> concat_text ps acc = Inr (acc @ concat ts)"
proof (induction ps arbitrary: ts acc)
  case Nil
  then show ?case by simp
next
  case (Cons p ps)
  then obtain t ts' where ts: "ts = t # ts'" "get_text p = Inr t" "map get_text ps = map Inr ts'"
    by (cases ts) auto
  then show ?case using Cons.IH [of ts' "acc @ t"] by simp
qed

lemma form_headings_empty:
  assumes "map get_text (take (min 3 (length d)) d) = map Inr ts"
    and "str_in ''application form'' (lower (concat ts))
         \<or> str_in ''government servant'' (lower (concat ts))"
  shows "extract_headings d = Inr []"
proof -
  have "concat_text (take (min 3 (length d)) d) [] = Inr (concat ts)"
    using concat_text_Inr [OF assms(1), of "[]"] by simp
  moreover have "is_form (lower (concat ts))" using assms(2) by (simp add: is_form_def)
  ultimately show ?thesis by (simp add: extract_headings_def)
qed

subsection \<open>The exits of \<open>extract_outline\<close>\<close>

lemma try_body_cases:
  "(\<exists>e. fitz_open pdf_path = Inl e \<and> try_body fitz_open pdf_path w = (Inl e, w))
   \<or> (\<exists>d e. fitz_open pdf_path = Inr d \<and> extract_title d = Inl e
          \<and> try_body fitz_open pdf_path w = (Inl e, w\<lparr>doc_handle := Opened\<rparr>))
   \<or> (\<exists>d t e. fitz_open pdf_path = Inr d \<and> extract_title d = Inr t \<and> extract_headings d = Inl e
          \<and> try_body fitz_open pdf_path w = (Inl e, w\<lparr>doc_handle := Opened\<rparr>))
   \<or> (\<exists>d t ol. fitz_open pdf_path = Inr d \<and> extract_title d = Inr t \<and> extract_headings d = Inr ol
          \<and> try_body fitz_open pdf_path w
              = (Inr \<lparr>title = t, outline = ol\<rparr>, w\<lparr>doc_handle := Closed\<rparr>))"
  unfolding try_body_def by (auto simp: Let_def split: sum.splits)

lemma handler_prints:
  "try_body fitz_open pdf_path w = (Inl e, w1) \<Longrightarrow> stdout (error_line pdf_path e) = None \<Longrightarrow>
   extract_outline fitz_open stdout pdf_path w =
     (Inr default_output, w1\<lparr>console := console w1 @ [error_line pdf_path e]\<rparr>)"
  by (simp add: extract_outline_def py_print_def)

lemma handler_print_raises:
  "try_body fitz_open pdf_path w = (Inl e, w1) \<Longrightarrow> stdout (error_line pdf_path e) = Some e' \<Longrightarrow>
   extract_outline fitz_open stdout pdf_path w = (Inl e', w1)"
  by (simp add: extract_outline_def py_print_def)

lemma extract_outline_open_raises:
  "fitz_open pdf_path = Inl e \<Longrightarrow> stdout (error_line pdf_path e) = None \<Longrightarrow>
   extract_outline fitz_open stdout pdf_path w =
     (Inr default_output, w\<lparr>console := console w @ [error_line pdf_path e]\<rparr>)"
  by (simp add: extract_outline_def try_body_def py_print_def)

lemma extract_outline_title_raises:
  "fitz_open pdf_path = Inr d \<Longrightarrow> extract_title d = Inl e \<Longrightarrow>
   stdout (error_line pdf_path e) = None \<Longrightarrow>
   extract_outline fitz_open stdout pdf_path w =
     (Inr default_output,
      w\<lparr>doc_handle := Opened, console := console w @ [error_line pdf_path e]\<rparr>)"
  by (simp add: extract_outline_def try_body_def py_print_def)

lemma extract_outline_headings_raise:
  "fitz_open pdf_path = Inr d \<Longrightarrow> extract_title d = Inr t \<Longrightarrow> extract_headings d = Inl e \<Longrightarrow>
   stdout (error_line pdf_path e) = None \<Longrightarrow>
   extract_outline fitz_open stdout pdf_path w =
     (Inr default_output,
      w\<lparr>doc_handle := Opened, console := console w @ [error_line pdf_path e]\<rparr>)"
  by (simp add: extract_outline_def try_body_def py_print_def)

lemma extract_outline_returns:
  "fitz_open pdf_path = Inr d \<Longrightarrow> extract_title d = Inr t \<Longrightarrow> extract_headings d = Inr ol \<Longrightarrow>
   extract_outline fitz_open stdout pdf_path w =
     (Inr \<lparr>title = t, outline = ol\<rparr>, w\<lparr>doc_handle := Closed\<rparr>)"
  by (simp add: extract_outline_def try_body_def)

lemma escaped_is_from_print:
  "fst (extract_outline fitz_open stdout pdf_path w) = Inl e' \<Longrightarrow> \<exists>msg. stdout msg = Some e'"
  unfolding extract_outline_def py_print_def
  by (auto split: prod.splits sum.splits option.splits)

lemma extract_outline_total_when_printing:
  "\<forall>msg. stdout msg = None \<Longrightarrow> \<exists>r w'. extract_outline fitz_open stdout pdf_path w = (Inr r, w')"
  unfolding extract_outline_def py_print_def
  by (auto split: prod.splits sum.splits option.splits)

subsection \<open>Deduplication\<close>

lemma unique_loop_distinct:
  "distinct (map (\<lambda>h. strip (h_text h)) acc) \<Longrightarrow>
   (\<lambda>h. strip (h_text h)) ` set acc \<subseteq> seen \<Longrightarrow>
   distinct (map (\<lambda>h. strip (h_text h)) (unique_loop hs seen acc))"
proof (induction hs seen acc rule: unique_loop.induct)
  case (1 seen acc)
  then show ?case by simp
next
  case (2 h hs seen acc)
  show ?case
  proof (cases "strip (h_text h) \<in> seen")
    case True
    then show ?thesis using 2 by (simp add: Let_def)
  next
    case False
    have d: "distinct (map (\<lambda>h. strip (h_text h)) (acc @ [h]))"
      using 2(3,4) False by auto
    have s: "(\<lambda>h. strip (h_text h)) ` set (acc @ [h]) \<subseteq> insert (strip (h_text h)) seen"
      using 2(4) by auto
    show ?thesis using 2(1) [OF refl False d s] False by (simp add: Let_def)
  qed
qed

lemma distinct_map_comp:
  "distinct (map (\<lambda>x. f (g x)) xs) \<Longrightarrow> distinct (map g xs)"
  by (induction xs) auto

lemma unique_texts_distinct: "distinct (map h_text (unique_loop hs {} []))"
proof -
  have "distinct (map (\<lambda>h. strip (h_text h)) (unique_loop hs {} []))"
    by (rule unique_loop_distinct) simp_all
  then show ?thesis by (rule distinct_map_comp)
qed

lemma unique_loop_snoc:
  "unique_loop (xs @ [x]) seen acc =
     (if strip (h_text x) \<in> seen \<union> (\<lambda>h. strip (h_text h)) ` set xs
      then unique_loop xs seen acc
      else unique_loop xs seen acc @ [x])"
proof (induction xs arbitrary: seen acc)
  case Nil
  then show ?case by (simp add: Let_def)
next
  case (Cons y xs)
  show ?case
  proof (cases "strip (h_text y) \<in> seen")
    case True
    then have "seen \<union> (\<lambda>h. strip (h_text h)) ` set (y # xs)
               = seen \<union> (\<lambda>h. strip (h_text h)) ` set xs"
      by auto
    then show ?thesis using True Cons.IH [of seen acc] by (simp add: Let_def)
  next
    case False
    have "seen \<union> (\<lambda>h. strip (h_text h)) ` set (y # xs)
          = insert (strip (h_text y)) seen \<union> (\<lambda>h. strip (h_text h)) ` set xs"
      by auto
    then show ?thesis
      using False Cons.IH [of "insert (strip (h_text y)) seen" "acc @ [y]"]
      by (simp add: Let_def)
  qed
qed

text \<open>The positions of the first occurrences of the stripped texts.\<close>

lemma first_positions_snoc:
  "filter (\<lambda>i. \<forall>j<i. k ((xs @ [x]) ! j) \<noteq> k ((xs @ [x]) ! i)) [0..<length (xs @ [x])]
   = filter (\<lambda>i. \<forall>j<i. k (xs ! j) \<noteq> k (xs ! i)) [0..<length xs]
     @ (if k x \<in> k ` set xs then [] else [length xs])"
proof -
  have a: "filter (\<lambda>i. \<forall>j<i. k ((xs @ [x]) ! j) \<noteq> k ((xs @ [x]) ! i)) [0..<length xs]
           = filter (\<lambda>i. \<forall>j<i. k (xs ! j) \<noteq> k (xs ! i)) [0..<length xs]"
    by (rule filter_cong) (auto simp: nth_append)
  have b: "(\<forall>j<length xs. k ((xs @ [x]) ! j) \<noteq> k ((xs @ [x]) ! length xs))
           \<longleftrightarrow> k x \<notin> k ` set xs"
  proof -
    have "(\<forall>j<length xs. k (xs ! j) \<noteq> k x) \<longleftrightarrow> k x \<notin> k ` set xs"
    proof
      assume l: "\<forall>j<length xs. k (xs ! j) \<noteq> k x"
      show "k x \<notin> k ` set xs"
      proof
        assume "k x \<in> k ` set xs"
        then obtain y where y: "y \<in> set xs" "k x = k y" by blast
        then obtain j where "j < length xs" "xs ! j = y" by (auto simp: in_set_conv_nth)
        then show False using l y(2) by auto
      qed
    next
      assume "k x \<notin> k ` set xs"
      then show "\<forall>j<length xs. k (xs ! j) \<noteq> k x" by (metis image_eqI nth_mem)
    qed
    then show ?thesis by (simp add: nth_append)
  qed
  show ?thesis using a b by simp
qed

lemma unique_loop_first_occurrences:
  "unique_loop hs {} [] =
     map (\<lambda>i. hs ! i)
       (filter (\<lambda>i. \<forall>j<i. strip (h_text (hs ! j)) \<noteq> strip (h_text (hs ! i))) [0..<length hs])"
proof (induction hs rule: rev_induct)
  case Nil
  then show ?case by simp
next
  case (snoc x xs)
  let ?k = "\<lambda>h. strip (h_text h)"
  have m: "map (\<lambda>i. (xs @ [x]) ! i) (filter (\<lambda>i. \<forall>j<i. ?k (xs ! j) \<noteq> ?k (xs ! i)) [0..<length xs])
           = map (\<lambda>i. xs ! i) (filter (\<lambda>i. \<forall>j<i. ?k (xs ! j) \<noteq> ?k (xs ! i)) [0..<length xs])"
    by (rule map_cong) (auto simp: nth_append)
  show ?case
    unfolding unique_loop_snoc first_positions_snoc [of ?k xs x]
    using snoc.IH m by simp
qed

subsection \<open>The outline as a whole\<close>

lemma first_with_length: "length (first_with k hs) \<le> 1"
  by (induction hs) auto

lemma first_with_page: "e \<in> set (first_with k hs) \<Longrightarrow> e_page e = 0 \<and> e_level e = ''H1''"
  by (induction hs) (auto split: if_splits)

lemma first_with_none:
  "\<forall>h\<in>set hs. \<not> str_in k (lower (h_text h)) \<Longrightarrow> first_with k hs = []"
  by (induction hs) auto

lemma e_text_leveled: "map e_text (map (leveled dt) hs) = map h_text hs"
  by (simp add: leveled_def)

lemma e_page_leveled: "e_page (leveled dt h) = h_page h"
  by (simp add: leveled_def)

lemma distinct_map_sort_key:
  "distinct (map f ys) \<Longrightarrow> distinct (map f (sort_key k ys))"
  by (simp add: distinct_map)

lemma distinct_short: "length xs \<le> 1 \<Longrightarrow> distinct xs"
  by (cases xs) auto

lemma sorted_zero_pages: "\<forall>e\<in>set es. e_page e = 0 \<Longrightarrow> sorted (map e_page es)"
  by (induction es) auto

lemma filter_headings_distinct: "distinct (map e_text (filter_headings hs dt))"
proof -
  let ?u = "unique_loop hs {} []"
  have a: "distinct (map e_text (first_with k ?u))" for k
    using first_with_length [of k ?u] by (simp add: distinct_short)
  have "distinct (map h_text ?u)" by (rule unique_texts_distinct)
  then have "distinct (map e_text (map (leveled dt) ?u))" by (simp only: e_text_leveled)
  then have b: "distinct (map e_text (sort_key e_page (map (leveled dt) ?u)))"
    by (rule distinct_map_sort_key)
  show ?thesis using a b by (simp add: filter_headings_def Let_def)
qed

lemma filter_headings_sorted: "sorted (map e_page (filter_headings hs dt))"
proof -
  let ?u = "unique_loop hs {} []"
  have a: "sorted (map e_page (first_with k ?u))" for k
    using first_with_page [of _ k ?u] by (simp add: sorted_zero_pages)
  have b: "sorted (map e_page (sort_key e_page (map (leveled dt) ?u)))"
    by (rule sorted_sort_key)
  show ?thesis using a b by (simp add: filter_headings_def Let_def)
qed

lemma outline_cases:
  assumes "extract_outline fitz_open stdout pdf_path w = (Inr r, w')"
  shows "outline r = [] \<or> (\<exists>all dt. outline r = filter_headings all dt)"
proof -
  from extract_outline_cases [OF assms] show ?thesis
  proof
    assume "r = default_output"
    then show ?thesis by (simp add: default_output_def)
  next
    assume "\<exists>d t ol. fitz_open pdf_path = Inr d \<and> extract_title d = Inr t
       \<and> extract_headings d = Inr ol \<and> r = \<lparr>title = t, outline = ol\<rparr>"
    then obtain d ol where "extract_headings d = Inr ol" "outline r = ol" by auto
    then show ?thesis using extract_headings_cases [of d ol] by auto
  qed
qed

subsection \<open>The branches of \<open>_filter_headings\<close>\<close>

lemma filter_headings_pathway:
  "str_in ''pathway options'' dt \<or> str_in ''stem pathways'' dt \<Longrightarrow>
   filter_headings hs dt = first_with ''pathway options'' (unique_loop hs {} [])"
  by (simp add: filter_headings_def Let_def)

lemma filter_headings_rsvp:
  "\<not> (str_in ''pathway options'' dt \<or> str_in ''stem pathways'' dt) \<Longrightarrow>
   str_in ''hope to see you'' dt \<or> str_in ''rsvp'' dt \<Longrightarrow>
   filter_headings hs dt = first_with ''hope to see you there'' (unique_loop hs {} [])"
  by (simp add: filter_headings_def Let_def)

lemma filter_headings_levelled:
  "\<not> (str_in ''pathway options'' dt \<or> str_in ''stem pathways'' dt) \<Longrightarrow>
   \<not> (str_in ''hope to see you'' dt \<or> str_in ''rsvp'' dt) \<Longrightarrow>
   filter_headings hs dt = sort_key e_page (map (leveled dt) (unique_loop hs {} []))"
  by (simp add: filter_headings_def Let_def)

lemma first_with_entry:
  assumes "e \<in> set (first_with k hs)"
  shows "e_level e = ''H1'' \<and> e_page e = 0 \<and> str_in k (lower (e_text e))
         \<and> e_text e \<in> h_text ` set hs"
  using assms first_with_cases [of k hs] by auto

lemma leveled_rfp:
  "str_in ''rfp'' dt \<or> str_in ''digital library'' dt \<Longrightarrow>
   leveled dt h = \<lparr>e_level = rfp_level (h_text h), e_text = h_text h, e_page = h_page h\<rparr>"
  by (simp add: leveled_def level_of_def rfp_level_def any_in_def Let_def)

lemma lower_append: "lower (a @ b) = lower a @ lower b"
  by (simp add: lower_def)

lemma str_in_lower: "str_in p t \<Longrightarrow> str_in (lower p) (lower t)"
  unfolding str_in_iff by (metis lower_append)

subsection \<open>The span loop of the title\<close>

lemma fold_lines:
  "fold (\<lambda>l a. fold f (spans l) a) ls a = fold f (concat (map spans ls)) a"
  by (induction ls arbitrary: a) auto

lemma fold_title_text:
  "t_text (fold title_span ss a) = t_text a @ concat (map span_text ss)"
  by (induction ss arbitrary: a) (auto simp: title_span_def)

lemma fold_title_bold:
  "t_bold (fold title_span ss a) = (t_bold a \<or> list_ex flag_bold ss)"
  by (induction ss arbitrary: a) (auto simp: title_span_def)

lemma fold_title_size:
  "t_size (fold title_span ss a) = fold max (map span_size ss) (t_size a)"
  by (induction ss arbitrary: a) (auto simp: title_span_def max.commute)

lemma fold_title_pos_Some:
  "t_pos a = Some y \<Longrightarrow> t_pos (fold title_span ss a) = Some (fold min (map bbox1 ss) y)"
  by (induction ss arbitrary: a y) (auto simp: title_span_def min.commute)

lemma fold_title_pos:
  "t_pos a = None \<Longrightarrow>
   t_pos (fold title_span ss a) = (if ss = [] then None else Some (Min (set (map bbox1 ss))))"
proof (cases ss)
  case Nil
  assume "t_pos a = None"
  then show ?thesis using Nil by simp
next
  case (Cons s ss')
  assume "t_pos a = None"
  then have "t_pos (title_span s a) = Some (bbox1 s)" by (simp add: title_span_def)
  then have "t_pos (fold title_span ss' (title_span s a)) = Some (fold min (map bbox1 ss') (bbox1 s))"
    by (rule fold_title_pos_Some)
  moreover have "fold min (map bbox1 ss') (bbox1 s) = Min (set (bbox1 s # map bbox1 ss'))"
    by (rule Min.set_eq_fold [symmetric])
  ultimately show ?thesis using Cons by simp
qed

lemma title_block_fields:
  "t_text (title_block ls) = concat (map span_text (block_spans (TextBlock ls)))"
  "t_bold (title_block ls) = spec_bold (TextBlock ls)"
  "t_size (title_block ls) = spec_max_size (TextBlock ls)"
  "t_pos (title_block ls) = spec_min_y (TextBlock ls)"
proof -
  have b: "title_block ls = fold title_span (block_spans (TextBlock ls)) title_init"
    by (simp add: title_block_def block_spans_def fold_lines)
  show "t_text (title_block ls) = concat (map span_text (block_spans (TextBlock ls)))"
    unfolding b fold_title_text by (simp add: title_init_def)
  show "t_bold (title_block ls) = spec_bold (TextBlock ls)"
    unfolding b fold_title_bold by (simp add: title_init_def spec_bold_def)
  have "fold max (map span_size (block_spans (TextBlock ls))) 0
        = Max (set (0 # map span_size (block_spans (TextBlock ls))))"
    by (rule Max.set_eq_fold [symmetric])
  then show "t_size (title_block ls) = spec_max_size (TextBlock ls)"
    unfolding b fold_title_size by (simp add: title_init_def spec_max_size_def)
  show "t_pos (title_block ls) = spec_min_y (TextBlock ls)"
    unfolding b by (simp add: fold_title_pos title_init_def spec_min_y_def)
qed

subsection \<open>The candidates of the title\<close>

text \<open>What one block adds to the list of candidates.\<close>

lemma title_step_append: "title_step b acc = acc @ title_step b []"
  by (cases b) (auto simp: title_step_def Let_def)

lemma fold_title_step: "fold title_step bs acc = acc @ concat (map (\<lambda>b. title_step b []) bs)"
proof (induction bs arbitrary: acc)
  case Nil
  then show ?case by simp
next
  case (Cons b bs)
  show ?case using Cons.IH [of "title_step b acc"] title_step_append [of b acc] by simp
qed

lemma title_step_spec:
  "map (\<lambda>c. (c_text c, score c)) (title_step b [])
     = (if spec_title_block b then [(spec_text b, spec_score b)] else [])"
proof (cases b)
  case NoLines
  then show ?thesis by (simp add: title_step_def spec_title_block_def)
next
  case (TextBlock ls)
  have t: "strip (t_text (title_block ls)) = spec_text b"
    by (simp add: TextBlock title_block_fields spec_text_def)
  have step: "title_step b [] =
      (if 10 < length (spec_text b) \<and> length (spec_text b) < 200
       then [\<lparr>c_text = spec_text b, c_size = spec_max_size b,
               c_bold = spec_bold b, c_position = spec_min_y b\<rparr>]
       else [])"
    unfolding TextBlock title_step_def
    by (simp add: Let_def t [unfolded TextBlock] title_block_fields(2-4))
  have sb: "spec_title_block b \<longleftrightarrow> 10 < length (spec_text b) \<and> length (spec_text b) < 200"
    by (simp add: spec_title_block_def TextBlock)
  show ?thesis unfolding step sb by (simp add: score_def spec_score_def)
qed

lemma title_candidates_spec:
  "map (\<lambda>c. (c_text c, score c)) (title_candidates blocks) = spec_title_candidates blocks"
proof -
  have "map (\<lambda>c. (c_text c, score c)) (concat (map (\<lambda>b. title_step b []) bs))
        = map (\<lambda>b. (spec_text b, spec_score b)) (filter spec_title_block bs)" for bs
    by (induction bs) (simp_all add: title_step_spec)
  then show ?thesis
    by (simp add: title_candidates_def spec_title_candidates_def fold_title_step)
qed

subsection \<open>The first of the best\<close>

lemma max_by_split:
  "\<exists>pre post. b # xs = pre @ max_by f b xs # post
     \<and> (\<forall>y\<in>set pre. f y < f (max_by f b xs))
     \<and> (\<forall>y\<in>set post. f y \<le> f (max_by f b xs))"
proof (induction xs arbitrary: b)
  case Nil
  show ?case by (rule exI [of _ "[]"], rule exI [of _ "[]"]) simp
next
  case (Cons x xs)
  define b' where "b' = (if f x > f b then x else b)"
  define m where "m = max_by f b' xs"
  from Cons.IH [of b'] obtain pre post where
    sp: "b' # xs = pre @ m # post"
    and lo: "\<forall>y\<in>set pre. f y < f m"
    and hi: "\<forall>y\<in>set post. f y \<le> f m"
    unfolding m_def by blast
  have m: "max_by f b (x # xs) = m" by (simp add: m_def b'_def)
  have bm: "f b' \<le> f m"
  proof (cases pre)
    case Nil
    then have "b' = m" using sp by simp
    then show ?thesis by simp
  next
    case (Cons p pre')
    then have "b' \<in> set pre" using sp by simp
    then have "f b' < f m" using lo by blast
    then show ?thesis by simp
  qed
  show ?case
  proof (cases "f x > f b")
    case True
    then have bx: "b' = x" by (simp add: b'_def)
    have "b # x # xs = (b # pre) @ m # post" using sp bx by simp
    moreover have "\<forall>y\<in>set (b # pre). f y < f m" using lo bm True bx by auto
    ultimately show ?thesis unfolding m using hi by blast
  next
    case False
    then have bb: "b' = b" by (simp add: b'_def)
    show ?thesis
    proof (cases pre)
      case Nil
      then have mb: "m = b" and post: "post = xs" using sp bb by simp_all
      have "b # x # xs = [] @ m # (x # post)" using mb post by simp
      moreover have "\<forall>y\<in>set (x # post). f y \<le> f m" using hi False mb by auto
      moreover have "\<forall>y\<in>set []. f y < f m" by simp
      ultimately show ?thesis unfolding m by blast
    next
      case (Cons p pre')
      then have p: "p = b" and xs: "xs = pre' @ m # post" using sp bb by simp_all
      have "f b < f m" using lo Cons p by simp
      then have "\<forall>y\<in>set (b # x # pre'). f y < f m" using lo Cons False by auto
      moreover have "b # x # xs = (b # x # pre') @ m # post" using xs by simp
      ultimately show ?thesis unfolding m using hi by blast
    qed
  qed
qed

lemma extract_title_spec:
  assumes "d \<noteq> []" and "get_text_dict (d ! 0) = Inr blocks"
  shows "((\<forall>c\<in>set (spec_title_candidates blocks). snd c \<le> 2) \<longrightarrow> extract_title d = Inr [])
       \<and> (\<not> (\<forall>c\<in>set (spec_title_candidates blocks). snd c \<le> 2) \<longrightarrow>
            (\<exists>pre best post. spec_title_candidates blocks = pre @ best # post
               \<and> (\<forall>c\<in>set pre. snd c < snd best)
               \<and> (\<forall>c\<in>set post. snd c \<le> snd best)
               \<and> extract_title d = Inr (fst best)))"
proof (cases "title_candidates blocks")
  case Nil
  then have "spec_title_candidates blocks = []"
    using title_candidates_spec [of blocks] by simp
  moreover have "extract_title d = Inr []"
    using assms Nil by (simp add: extract_title_def)
  ultimately show ?thesis by simp
next
  case (Cons c cs)
  define g where "g = (\<lambda>c. (c_text c, score c))"
  define m where "m = max_by score c cs"
  have t: "extract_title d = Inr (if score m > 2 then c_text m else [])"
    using assms Cons by (simp add: extract_title_def Let_def m_def)
  from max_by_split [of c cs score] obtain pre post where
    sp: "c # cs = pre @ m # post"
    and lo: "\<forall>y\<in>set pre. score y < score m"
    and hi: "\<forall>y\<in>set post. score y \<le> score m"
    unfolding m_def by blast
  have "spec_title_candidates blocks = map g (pre @ m # post)"
    using title_candidates_spec [of blocks] Cons sp by (simp add: g_def)
  then have spec: "spec_title_candidates blocks = map g pre @ g m # map g post"
    by simp
  have sg: "snd (g y) = score y" for y by (simp add: g_def)
  have fg: "fst (g y) = c_text y" for y by (simp add: g_def)
  have lo': "\<forall>p\<in>set (map g pre). snd p < snd (g m)" using lo by (simp add: sg)
  have hi': "\<forall>p\<in>set (map g post). snd p \<le> snd (g m)" using hi by (simp add: sg)
  show ?thesis
  proof (cases "score m \<le> 2")
    case True
    have "\<forall>p\<in>set (spec_title_candidates blocks). snd p \<le> 2"
    proof
      fix p
      assume "p \<in> set (spec_title_candidates blocks)"
      then consider "p \<in> set (map g pre)" | "p = g m" | "p \<in> set (map g post)"
        unfolding spec by auto
      then have "snd p \<le> snd (g m)"
      proof cases
        case 1
        then have "snd p < snd (g m)" using lo' by blast
        then show ?thesis by simp
      next
        case 2
        then show ?thesis by simp
      next
        case 3
        then show ?thesis using hi' by blast
      qed
      then show "snd p \<le> 2" using True by (simp add: sg)
    qed
    moreover have "extract_title d = Inr []" using t True by simp
    ultimately show ?thesis by simp
  next
    case False
    have "g m \<in> set (spec_title_candidates blocks)" unfolding spec by simp
    moreover have "\<not> snd (g m) \<le> 2" using False by (simp add: sg)
    ultimately have n: "\<not> (\<forall>p\<in>set (spec_title_candidates blocks). snd p \<le> 2)" by blast
    have "extract_title d = Inr (fst (g m))" using t False by (simp add: fg)
    then have "\<exists>pre best post. spec_title_candidates blocks = pre @ best # post
               \<and> (\<forall>c\<in>set pre. snd c < snd best)
               \<and> (\<forall>c\<in>set post. snd c \<le> snd best)
               \<and> extract_title d = Inr (fst best)"
      using spec lo' hi' by blast
    then show ?thesis using n by blast
  qed
qed

section \<open>The claims\<close>

text \<open>
  C10. In every document, whatever its profile, a block whose lower-cased text holds one
  of the form labels is rejected by the exclusion rules, which run before the inclusion
  rules: no heading candidate of a page holds a form label, and no entry of an outline
  holds "service" or "designation" in its lower-cased text. In particular
  "Web Services Overview" is never the text of an outline entry.
\<close>

theorem form_labels_never_in_outline:
  "(any_in form_patterns (lower t) \<longrightarrow> is_obviously_not_heading t) \<and>
   (extract_headings_from_page p n dt = Inr hs \<longrightarrow>
      (\<forall>h\<in>set hs. \<not> any_in form_patterns (lower (h_text h)))) \<and>
   (extract_outline fitz_open stdout pdf_path w = (Inr r, w') \<longrightarrow>
      (\<forall>e\<in>set (outline r). \<not> str_in ''service'' (lower (e_text e))
          \<and> \<not> str_in ''designation'' (lower (e_text e))
          \<and> e_text e \<noteq> ''Web Services Overview''))"
proof (intro conjI impI ballI)
  assume "any_in form_patterns (lower t)"
  then show "is_obviously_not_heading t" by (rule form_label_excluded)
next
  fix h
  assume "extract_headings_from_page p n dt = Inr hs" and "h \<in> set hs"
  then have "passed h" using from_page_passed by blast
  then show "\<not> any_in form_patterns (lower (h_text h))"
    using form_label_excluded by (auto simp: passed_def)
next
  fix e
  assume run: "extract_outline fitz_open stdout pdf_path w = (Inr r, w')" and e: "e \<in> set (outline r)"
  have ok: "\<not> is_obviously_not_heading (e_text e)" using outline_passed [OF run e] .
  then show "\<not> str_in ''service'' (lower (e_text e))"
    and "\<not> str_in ''designation'' (lower (e_text e))"
    using not_excluded_no_label by blast+
  have "is_obviously_not_heading ''Web Services Overview''" by code_simp
  then show "e_text e \<noteq> ''Web Services Overview''" using ok by auto
qed

text \<open>
  The page of the witness holds "Web Services Overview" in bold 18pt type, which the
  inclusion rules would accept, and "Project Overview"; only the second is in the outline.
\<close>

theorem form_labels_never_in_outline_witness:
  "any_in form_patterns (lower ''Web Services Overview'')
   \<and> is_obviously_not_heading ''Web Services Overview''
   \<and> is_likely_heading ''Web Services Overview'' 18 True ''web services overview project overview''
   \<and> extract_headings_from_page services_page 0 ''web services overview project overview''
       = Inr [\<lparr>h_text = ''Project Overview'', h_size = 18, h_bold = True, h_page = 0\<rparr>]
   \<and> \<not> any_in form_patterns (lower ''Project Overview'')
   \<and> extract_outline (open_as [services_page]) stdout_ok ''services.pdf'' w0
       = (Inr \<lparr>title = ''Web Services Overview'',
               outline = [\<lparr>e_level = ''H1'', e_text = ''Project Overview'', e_page = 0\<rparr>]\<rparr>,
          \<lparr>console = [], doc_handle = Closed\<rparr>)
   \<and> \<not> str_in ''service'' (lower ''Project Overview'')"
proof -
  have a: "any_in form_patterns (lower ''Web Services Overview'')" by code_simp
  have l: "is_likely_heading ''Web Services Overview'' 18 True ''web services overview project overview''"
    by code_simp
  have p: "extract_headings_from_page services_page 0 ''web services overview project overview''
       = Inr [\<lparr>h_text = ''Project Overview'', h_size = 18, h_bold = True, h_page = 0\<rparr>]"
    by code_simp
  have r: "extract_outline (open_as [services_page]) stdout_ok ''services.pdf'' w0
       = (Inr \<lparr>title = ''Web Services Overview'',
               outline = [\<lparr>e_level = ''H1'', e_text = ''Project Overview'', e_page = 0\<rparr>]\<rparr>,
          \<lparr>console = [], doc_handle = Closed\<rparr>)"
    by code_simp
  from form_labels_never_in_outline [where t = "''Web Services Overview''" and p = services_page
      and n = 0 and dt = "''web services overview project overview''"
      and hs = "[\<lparr>h_text = ''Project Overview'', h_size = 18, h_bold = True, h_page = 0\<rparr>]"
      and fitz_open = "open_as [services_page]" and stdout = stdout_ok and pdf_path = "''services.pdf''" and w = w0
      and r = "\<lparr>title = ''Web Services Overview'',
               outline = [\<lparr>e_level = ''H1'', e_text = ''Project Overview'', e_page = 0\<rparr>]\<rparr>"
      and w' = "\<lparr>console = [], doc_handle = Closed\<rparr>"] a l p r
  show ?thesis by simp
qed

text \<open>
  C1 as stated fails: "1.2 Scope" matches the numbered-heading pattern of the first
  inclusion rule, and the inclusion rules accept it, but the exclusion rules are
  evaluated first and their decimal sub-item pattern matches it too. A page whose only
  block is a bold 18pt "1.2 Scope" gives no heading candidate and an empty outline.
\<close>

theorem scope_heading_counterexample:
  "re_match rx_numbered_heading ''1.2 Scope''
   \<and> re_match rx_sub_item ''1.2 Scope''
   \<and> is_likely_heading ''1.2 Scope'' 18 True ''report 1.2 scope''
   \<and> extract_headings_from_page scope_page 0 ''report 1.2 scope'' = Inr []
   \<and> extract_headings [scope_page] = Inr []"
  by code_simp

text \<open>
  C1, amended. "1.2 Scope" matches the numbered-heading pattern of the first inclusion
  rule, but the exclusion rules are evaluated before the inclusion rules and reject it
  by the decimal sub-item pattern: it is never a heading candidate of a page, and no
  outline has an entry with this text.
\<close>

theorem scope_heading_excluded:
  "re_match rx_numbered_heading ''1.2 Scope''
   \<and> re_match rx_sub_item ''1.2 Scope''
   \<and> is_obviously_not_heading ''1.2 Scope''
   \<and> (extract_headings_from_page p n dt = Inr hs \<longrightarrow> ''1.2 Scope'' \<notin> h_text ` set hs)
   \<and> (extract_outline fitz_open stdout pdf_path w = (Inr r, w') \<longrightarrow>
         ''1.2 Scope'' \<notin> e_text ` set (outline r))"
proof -
  have m: "re_match rx_numbered_heading ''1.2 Scope''" by code_simp
  have s: "re_match rx_sub_item ''1.2 Scope''" by code_simp
  have x: "is_obviously_not_heading ''1.2 Scope''" by code_simp
  have a: "extract_headings_from_page p n dt = Inr hs \<longrightarrow> ''1.2 Scope'' \<notin> h_text ` set hs"
    using from_page_passed [of p n dt hs] x by (auto simp: passed_def)
  have b: "extract_outline fitz_open stdout pdf_path w = (Inr r, w') \<longrightarrow>
         ''1.2 Scope'' \<notin> e_text ` set (outline r)"
    using outline_passed [of fitz_open stdout pdf_path w r w'] x by auto
  show ?thesis using m s x a b by blast
qed

theorem scope_heading_excluded_witness:
  "extract_headings_from_page scope_page 0 ''report 1.2 scope'' = Inr []
   \<and> extract_outline (open_as [scope_page]) stdout_ok ''scope.pdf'' w0
       = (Inr \<lparr>title = [], outline = []\<rparr>, \<lparr>console = [], doc_handle = Closed\<rparr>)
   \<and> ''1.2 Scope'' \<notin> e_text ` set []
   \<and> is_obviously_not_heading ''1.2 Scope''"
proof -
  have p: "extract_headings_from_page scope_page 0 ''report 1.2 scope'' = Inr []"
    by code_simp
  have r: "extract_outline (open_as [scope_page]) stdout_ok ''scope.pdf'' w0
       = (Inr \<lparr>title = [], outline = []\<rparr>, \<lparr>console = [], doc_handle = Closed\<rparr>)"
    by code_simp
  from scope_heading_excluded [where p = scope_page and n = 0 and dt = "''report 1.2 scope''"
      and hs = "[]" and fitz_open = "open_as [scope_page]" and stdout = stdout_ok and pdf_path = "''scope.pdf''"
      and w = w0 and r = "\<lparr>title = [], outline = []\<rparr>"
      and w' = "\<lparr>console = [], doc_handle = Closed\<rparr>"] p r
  show ?thesis by simp
qed

text \<open>
  C2. When the pages read for the profile (the first three, or all of them when there
  are fewer) give their plain text and the lower-cased concatenation holds
  "application form" or "government servant", heading extraction returns the empty
  outline, without reading the blocks of any page. Every record returned for the
  document has an empty outline, whatever the title extraction does; and a record is
  returned whenever the title extraction returns or the handler's line is printed.
\<close>

theorem form_document_outline_empty:
  assumes "map get_text (take (min 3 (length d)) d) = map Inr ts"
    and "str_in ''application form'' (lower (concat ts))
         \<or> str_in ''government servant'' (lower (concat ts))"
  shows "extract_headings d = Inr [] \<and>
         (fitz_open pdf_path = Inr d \<longrightarrow>
            (\<forall>r w'. extract_outline fitz_open stdout pdf_path w = (Inr r, w') \<longrightarrow> outline r = []) \<and>
            ((\<forall>e. extract_title d = Inl e \<longrightarrow> stdout (error_line pdf_path e) = None) \<longrightarrow>
               (\<exists>r w'. extract_outline fitz_open stdout pdf_path w = (Inr r, w') \<and> outline r = [])))"
proof -
  have h: "extract_headings d = Inr []" using assms by (rule form_headings_empty)
  have a: "outline r = []"
    if o: "fitz_open pdf_path = Inr d"
      and r: "extract_outline fitz_open stdout pdf_path w = (Inr r, w')" for r w'
    using extract_outline_cases [OF r] o h by (auto simp: default_output_def)
  have b: "\<exists>r w'. extract_outline fitz_open stdout pdf_path w = (Inr r, w') \<and> outline r = []"
    if o: "fitz_open pdf_path = Inr d"
      and p: "\<forall>e. extract_title d = Inl e \<longrightarrow> stdout (error_line pdf_path e) = None"
  proof (cases "extract_title d")
    case (Inl e)
    then have "stdout (error_line pdf_path e) = None" using p by blast
    then show ?thesis
      using extract_outline_title_raises [where fitz_open = fitz_open and stdout = stdout
          and pdf_path = pdf_path and w = w, OF o Inl]
      by (simp add: default_output_def)
  next
    case (Inr t)
    show ?thesis
      using extract_outline_returns [where fitz_open = fitz_open and stdout = stdout
          and pdf_path = pdf_path and w = w, OF o Inr h]
      by simp
  qed
  show ?thesis using h a b by blast
qed

text \<open>
  The form of the witness has an upper-case 18pt bold block that both sets of rules
  would let through as a heading.
\<close>

theorem form_document_outline_empty_witness:
  "map get_text (take (min 3 (length [form_page])) [form_page])
     = map Inr [''APPLICATION FORM for grant of LTC advance'']
   \<and> str_in ''application form'' (lower (concat [''APPLICATION FORM for grant of LTC advance'']))
   \<and> is_likely_heading ''LTC ADVANCE'' 18 True ''application form for grant of ltc advance''
   \<and> \<not> is_obviously_not_heading ''LTC ADVANCE''
   \<and> extract_headings [form_page] = Inr []
   \<and> (\<exists>r w'. extract_outline (open_as [form_page]) stdout_ok ''form.pdf'' w0 = (Inr r, w')
         \<and> outline r = [])"
proof -
  have a: "map get_text (take (min 3 (length [form_page])) [form_page])
     = map Inr [''APPLICATION FORM for grant of LTC advance'']"
    by (simp add: form_page_def mk_page_def)
  have b: "str_in ''application form'' (lower (concat [''APPLICATION FORM for grant of LTC advance'']))"
    by code_simp
  have c: "is_likely_heading ''LTC ADVANCE'' 18 True ''application form for grant of ltc advance''"
    by code_simp
  have d: "\<not> is_obviously_not_heading ''LTC ADVANCE''" by code_simp
  have o: "open_as [form_page] ''form.pdf'' = Inr [form_page]" by (simp add: open_as_def)
  have p: "\<forall>e. extract_title [form_page] = Inl e \<longrightarrow> stdout_ok (error_line ''form.pdf'' e) = None"
    by (simp add: stdout_ok_def)
  from form_document_outline_empty [OF a disjI1 [OF b], where fitz_open = "open_as [form_page]"
      and stdout = stdout_ok and pdf_path = "''form.pdf''" and w = w0]
    a b c d o p
  show ?thesis by blast
qed

text \<open>
  C5 as stated fails: the handler of \<open>extract_outline\<close> prints, and an exception of that
  \<open>print\<close> is raised outside the \<open>try\<close> body. With a standard output in the ASCII
  encoding and a path that holds U+00E9, opening raises, the handler's line cannot be
  encoded, and \<open>extract_outline\<close> ends with the exception of \<open>print\<close> instead of a record.
\<close>

theorem print_exception_escapes_counterexample:
  "open_fails cafe_pdf = Inl (PyException ''cannot open file'')
   \<and> stdout_ascii (error_line cafe_pdf (PyException ''cannot open file''))
       = Some (PyException ''UnicodeEncodeError'')
   \<and> extract_outline open_fails stdout_ascii cafe_pdf w0
       = (Inl (PyException ''UnicodeEncodeError''), w0)"
  by code_simp

text \<open>
  C5, amended. Every exception raised while opening the document or while extracting
  its title or its headings is caught inside \<open>extract_outline\<close>: the handler prints one
  line, and when that \<open>print\<close> returns, \<open>extract_outline\<close> returns the default record with
  the empty title and the empty outline. When nothing raises it returns the record of
  the title and the outline. The only exception that can leave \<open>extract_outline\<close> is one
  raised by the handler's \<open>print\<close>; with a standard output that takes every line,
  \<open>extract_outline\<close> returns a record for every path.
\<close>

theorem extract_outline_catches:
  "(fitz_open pdf_path = Inr d \<and> extract_title d = Inr t \<and> extract_headings d = Inr ol \<longrightarrow>
      extract_outline fitz_open stdout pdf_path w
        = (Inr \<lparr>title = t, outline = ol\<rparr>, w\<lparr>doc_handle := Closed\<rparr>)) \<and>
   (fitz_open pdf_path = Inl e
    \<or> fitz_open pdf_path = Inr d
        \<and> (extract_title d = Inl e \<or> extract_title d = Inr t \<and> extract_headings d = Inl e) \<longrightarrow>
      (stdout (error_line pdf_path e) = None \<longrightarrow>
         fst (extract_outline fitz_open stdout pdf_path w) = Inr default_output
         \<and> console (snd (extract_outline fitz_open stdout pdf_path w))
             = console w @ [error_line pdf_path e]) \<and>
      (stdout (error_line pdf_path e) = Some e' \<longrightarrow>
         fst (extract_outline fitz_open stdout pdf_path w) = Inl e')) \<and>
   (fst (extract_outline fitz_open stdout pdf_path w) = Inl e' \<longrightarrow> (\<exists>msg. stdout msg = Some e')) \<and>
   ((\<forall>msg. stdout msg = None) \<longrightarrow>
      (\<exists>r w'. extract_outline fitz_open stdout pdf_path w = (Inr r, w')))"
proof (intro conjI impI)
  assume "fitz_open pdf_path = Inr d \<and> extract_title d = Inr t \<and> extract_headings d = Inr ol"
  then show "extract_outline fitz_open stdout pdf_path w
        = (Inr \<lparr>title = t, outline = ol\<rparr>, w\<lparr>doc_handle := Closed\<rparr>)"
    using extract_outline_returns [where fitz_open = fitz_open and stdout = stdout
        and pdf_path = pdf_path and w = w and d = d and t = t and ol = ol]
    by blast
next
  assume f: "fitz_open pdf_path = Inl e
    \<or> fitz_open pdf_path = Inr d
        \<and> (extract_title d = Inl e \<or> extract_title d = Inr t \<and> extract_headings d = Inl e)"
  have tb: "\<exists>w1. try_body fitz_open pdf_path w = (Inl e, w1) \<and> console w1 = console w"
    using f unfolding try_body_def by (auto simp: Let_def)
  then obtain w1 where w1: "try_body fitz_open pdf_path w = (Inl e, w1)"
    and c1: "console w1 = console w"
    by blast
  {
    assume p: "stdout (error_line pdf_path e) = None"
    have r: "extract_outline fitz_open stdout pdf_path w =
        (Inr default_output, w1\<lparr>console := console w1 @ [error_line pdf_path e]\<rparr>)"
      by (rule handler_prints [where stdout = stdout, OF w1 p])
    show "fst (extract_outline fitz_open stdout pdf_path w) = Inr default_output"
      by (simp add: r)
    show "console (snd (extract_outline fitz_open stdout pdf_path w))
             = console w @ [error_line pdf_path e]"
      by (simp add: r c1)
  }
  {
    assume p: "stdout (error_line pdf_path e) = Some e'"
    have "extract_outline fitz_open stdout pdf_path w = (Inl e', w1)"
      by (rule handler_print_raises [where stdout = stdout, OF w1 p])
    then show "fst (extract_outline fitz_open stdout pdf_path w) = Inl e'" by simp
  }
next
  assume "fst (extract_outline fitz_open stdout pdf_path w) = Inl e'"
  then show "\<exists>msg. stdout msg = Some e'" by (rule escaped_is_from_print)
next
  assume "\<forall>msg. stdout msg = None"
  then show "\<exists>r w'. extract_outline fitz_open stdout pdf_path w = (Inr r, w')"
    by (rule extract_outline_total_when_printing)
qed

text \<open>
  The witness opens a missing file and a file whose first page cannot be read, with a
  standard output that takes every line, and the missing file once more with the ASCII
  standard output and the path that holds U+00E9.
\<close>

theorem extract_outline_catches_witness:
  "open_fails ''missing.pdf'' = Inl (PyException ''cannot open file'')
   \<and> stdout_ok (error_line ''missing.pdf'' (PyException ''cannot open file'')) = None
   \<and> fst (extract_outline open_fails stdout_ok ''missing.pdf'' w0) = Inr default_output
   \<and> console (snd (extract_outline open_fails stdout_ok ''missing.pdf'' w0))
       = console w0 @ [error_line ''missing.pdf'' (PyException ''cannot open file'')]
   \<and> open_as [broken_page] ''broken.pdf'' = Inr [broken_page]
   \<and> extract_title [broken_page] = Inl (PyException ''cannot load page'')
   \<and> fst (extract_outline (open_as [broken_page]) stdout_ok ''broken.pdf'' w0) = Inr default_output
   \<and> open_fails cafe_pdf = Inl (PyException ''cannot open file'')
   \<and> stdout_ascii (error_line cafe_pdf (PyException ''cannot open file''))
       = Some (PyException ''UnicodeEncodeError'')
   \<and> fst (extract_outline open_fails stdout_ascii cafe_pdf w0)
       = Inl (PyException ''UnicodeEncodeError'')
   \<and> (\<exists>r w'. extract_outline (open_as [broken_page]) stdout_ok ''broken.pdf'' w0 = (Inr r, w'))"
proof -
  have a: "open_fails ''missing.pdf'' = Inl (PyException ''cannot open file'')"
    by (simp add: open_fails_def)
  have a': "open_fails cafe_pdf = Inl (PyException ''cannot open file'')"
    by (simp add: open_fails_def)
  have b: "open_as [broken_page] ''broken.pdf'' = Inr [broken_page]" by (simp add: open_as_def)
  have c: "extract_title [broken_page] = Inl (PyException ''cannot load page'')"
    by (simp add: extract_title_def broken_page_def)
  have p: "\<forall>msg. stdout_ok msg = None" by (simp add: stdout_ok_def)
  have p1: "stdout_ok (error_line ''missing.pdf'' (PyException ''cannot open file'')) = None"
    by (simp add: stdout_ok_def)
  have p2: "stdout_ok (error_line ''broken.pdf'' (PyException ''cannot load page'')) = None"
    by (simp add: stdout_ok_def)
  have q: "stdout_ascii (error_line cafe_pdf (PyException ''cannot open file''))
       = Some (PyException ''UnicodeEncodeError'')"
    by code_simp
  note t1 = extract_outline_catches [where fitz_open = open_fails and stdout = stdout_ok
      and pdf_path = "''missing.pdf''" and w = w0 and e = "PyException ''cannot open file''"
      and d = "[]" and t = "[]" and ol = "[]" and e' = "PyException ''UnicodeEncodeError''"]
  note t2 = extract_outline_catches [where fitz_open = "open_as [broken_page]" and stdout = stdout_ok
      and pdf_path = "''broken.pdf''" and w = w0 and e = "PyException ''cannot load page''"
      and d = "[broken_page]" and t = "[]" and ol = "[]" and e' = "PyException ''UnicodeEncodeError''"]
  note t3 = extract_outline_catches [where fitz_open = open_fails and stdout = stdout_ascii
      and pdf_path = cafe_pdf and w = w0 and e = "PyException ''cannot open file''"
      and d = "[]" and t = "[]" and ol = "[]" and e' = "PyException ''UnicodeEncodeError''"]
  have r1: "fst (extract_outline open_fails stdout_ok ''missing.pdf'' w0) = Inr default_output
     \<and> console (snd (extract_outline open_fails stdout_ok ''missing.pdf'' w0))
         = console w0 @ [error_line ''missing.pdf'' (PyException ''cannot open file'')]"
    using t1 [THEN conjunct2, THEN conjunct1] a p1 by blast
  have r2: "fst (extract_outline (open_as [broken_page]) stdout_ok ''broken.pdf'' w0)
            = Inr default_output"
    using t2 [THEN conjunct2, THEN conjunct1] b c p2 by blast
  have r3: "fst (extract_outline open_fails stdout_ascii cafe_pdf w0)
            = Inl (PyException ''UnicodeEncodeError'')"
    using t3 [THEN conjunct2, THEN conjunct1] a' q by blast
  have r4: "\<exists>r w'. extract_outline (open_as [broken_page]) stdout_ok ''broken.pdf'' w0 = (Inr r, w')"
    using t2 [THEN conjunct2, THEN conjunct2, THEN conjunct2] p by blast
  show ?thesis using a p1 a' b c q r1 r2 r3 r4 by (intro conjI) blast+
qed

text \<open>
  C6 fails on the code. \<open>doc.close()\<close> is the last statement of the \<open>try\<close> body, so
  it runs on the successful path only: for a document that opens and whose first page
  raises when its structured text is read, \<open>extract_outline\<close> returns the default
  record with the handle still open. On the successful path the handle is closed.
\<close>

theorem handle_left_open_when_processing_raises:
  "open_as [broken_page] ''broken.pdf'' = Inr [broken_page]
   \<and> extract_title [broken_page] = Inl (PyException ''cannot load page'')
   \<and> extract_outline (open_as [broken_page]) stdout_ok ''broken.pdf'' w0 =
       (Inr \<lparr>title = [], outline = []\<rparr>,
        \<lparr>console = [''Error processing broken.pdf: cannot load page''], doc_handle = Opened\<rparr>)
   \<and> extract_outline (open_as [scope_page]) stdout_ok ''scope.pdf'' w0 =
       (Inr \<lparr>title = [], outline = []\<rparr>, \<lparr>console = [], doc_handle = Closed\<rparr>)"
  by code_simp

text \<open>
  C8. No two entries of an outline have the same text. The deduplication loop keeps,
  in their order, exactly the headings at the positions where a stripped text occurs
  for the first time; levelling and sorting keep the texts; the record returned for a
  document has pairwise different entry texts.
\<close>

theorem outline_texts_distinct:
  "distinct (map e_text (filter_headings hs dt)) \<and>
   unique_loop hs {} [] =
     map (\<lambda>i. hs ! i)
       (filter (\<lambda>i. \<forall>j<i. strip (h_text (hs ! j)) \<noteq> strip (h_text (hs ! i))) [0..<length hs]) \<and>
   (extract_outline fitz_open stdout pdf_path w = (Inr r, w') \<longrightarrow> distinct (map e_text (outline r)))"
proof (intro conjI impI)
  show "distinct (map e_text (filter_headings hs dt))" by (rule filter_headings_distinct)
  show "unique_loop hs {} [] =
     map (\<lambda>i. hs ! i)
       (filter (\<lambda>i. \<forall>j<i. strip (h_text (hs ! j)) \<noteq> strip (h_text (hs ! i))) [0..<length hs])"
    by (rule unique_loop_first_occurrences)
  assume "extract_outline fitz_open stdout pdf_path w = (Inr r, w')"
  then show "distinct (map e_text (outline r))"
    using outline_cases filter_headings_distinct by fastforce
qed

text \<open>
  C9. The pages of an outline never decrease. Outside the two single-entry profiles
  the outline is the stable sort by page of the levelled unique headings: the entries of
  any one page \<open>k\<close> are the levelled unique headings of that page in their order of
  discovery.
\<close>

theorem outline_sorted_by_page:
  "sorted (map e_page (filter_headings hs dt)) \<and>
   (\<not> (str_in ''pathway options'' dt \<or> str_in ''stem pathways'' dt) \<and>
    \<not> (str_in ''hope to see you'' dt \<or> str_in ''rsvp'' dt) \<longrightarrow>
      filter (\<lambda>e. e_page e = k) (filter_headings hs dt)
        = map (leveled dt) (filter (\<lambda>h. h_page h = k) (unique_loop hs {} []))) \<and>
   (extract_outline fitz_open stdout pdf_path w = (Inr r, w') \<longrightarrow> sorted (map e_page (outline r)))"
proof (intro conjI impI)
  show "sorted (map e_page (filter_headings hs dt))" by (rule filter_headings_sorted)
next
  assume g: "\<not> (str_in ''pathway options'' dt \<or> str_in ''stem pathways'' dt) \<and>
    \<not> (str_in ''hope to see you'' dt \<or> str_in ''rsvp'' dt)"
  let ?u = "unique_loop hs {} []"
  have "filter_headings hs dt = sort_key e_page (map (leveled dt) ?u)"
    using g by (simp add: filter_headings_def Let_def)
  then have "filter (\<lambda>e. e_page e = k) (filter_headings hs dt)
             = filter (\<lambda>e. e_page e = k) (map (leveled dt) ?u)"
    by (simp only: sort_key_stable)
  also have "\<dots> = map (leveled dt) (filter (\<lambda>h. h_page h = k) ?u)"
    by (simp add: filter_map comp_def e_page_leveled)
  finally show "filter (\<lambda>e. e_page e = k) (filter_headings hs dt)
        = map (leveled dt) (filter (\<lambda>h. h_page h = k) (unique_loop hs {} []))" .
next
  assume "extract_outline fitz_open stdout pdf_path w = (Inr r, w')"
  then show "sorted (map e_page (outline r))"
    using outline_cases filter_headings_sorted by fastforce
qed


text \<open>
  Four headings with "Beta" twice, and a two-page report that prints "Overview" on
  both pages.
\<close>

theorem outline_texts_distinct_witness:
  "unique_loop shuffled_headings {} []
     = [mk_heading ''Beta'' 18 1, mk_heading ''Alpha'' 15 0, mk_heading ''Gamma'' 12 1]
   \<and> map (\<lambda>i. shuffled_headings ! i)
        (filter (\<lambda>i. \<forall>j<i. strip (h_text (shuffled_headings ! j))
                              \<noteq> strip (h_text (shuffled_headings ! i)))
           [0..<length shuffled_headings])
     = [mk_heading ''Beta'' 18 1, mk_heading ''Alpha'' 15 0, mk_heading ''Gamma'' 12 1]
   \<and> distinct (map e_text (filter_headings shuffled_headings ''plain report''))
   \<and> extract_outline (open_as report_doc) stdout_ok ''report.pdf'' w0
       = (Inr \<lparr>title = [],
               outline = [\<lparr>e_level = ''H1'', e_text = ''Overview'', e_page = 0\<rparr>,
                          \<lparr>e_level = ''H2'', e_text = ''Details'', e_page = 0\<rparr>,
                          \<lparr>e_level = ''H1'', e_text = ''Conclusion'', e_page = 1\<rparr>]\<rparr>,
          \<lparr>console = [], doc_handle = Closed\<rparr>)
   \<and> distinct [''Overview'', ''Details'', ''Conclusion'']"
proof -
  have u: "unique_loop shuffled_headings {} []
     = [mk_heading ''Beta'' 18 1, mk_heading ''Alpha'' 15 0, mk_heading ''Gamma'' 12 1]"
    by code_simp
  have r: "extract_outline (open_as report_doc) stdout_ok ''report.pdf'' w0
       = (Inr \<lparr>title = [],
               outline = [\<lparr>e_level = ''H1'', e_text = ''Overview'', e_page = 0\<rparr>,
                          \<lparr>e_level = ''H2'', e_text = ''Details'', e_page = 0\<rparr>,
                          \<lparr>e_level = ''H1'', e_text = ''Conclusion'', e_page = 1\<rparr>]\<rparr>,
          \<lparr>console = [], doc_handle = Closed\<rparr>)"
    by code_simp
  from outline_texts_distinct [where hs = shuffled_headings and dt = "''plain report''"
      and fitz_open = "open_as report_doc" and stdout = stdout_ok and pdf_path = "''report.pdf''" and w = w0
      and r = "\<lparr>title = [],
               outline = [\<lparr>e_level = ''H1'', e_text = ''Overview'', e_page = 0\<rparr>,
                          \<lparr>e_level = ''H2'', e_text = ''Details'', e_page = 0\<rparr>,
                          \<lparr>e_level = ''H1'', e_text = ''Conclusion'', e_page = 1\<rparr>]\<rparr>"
      and w' = "\<lparr>console = [], doc_handle = Closed\<rparr>"] u r
  show ?thesis by simp
qed

text \<open>
  The headings of the witness arrive as pages 1, 0, 2, 1; the second "Beta" is a
  duplicate, and "Beta" stays before "Gamma" on page 1.
\<close>

theorem outline_sorted_by_page_witness:
  "\<not> (str_in ''pathway options'' ''plain report'' \<or> str_in ''stem pathways'' ''plain report'')
   \<and> \<not> (str_in ''hope to see you'' ''plain report'' \<or> str_in ''rsvp'' ''plain report'')
   \<and> filter_headings shuffled_headings ''plain report''
       = [\<lparr>e_level = ''H2'', e_text = ''Alpha'', e_page = 0\<rparr>,
          \<lparr>e_level = ''H1'', e_text = ''Beta'', e_page = 1\<rparr>,
          \<lparr>e_level = ''H3'', e_text = ''Gamma'', e_page = 1\<rparr>]
   \<and> sorted (map e_page (filter_headings shuffled_headings ''plain report''))
   \<and> filter (\<lambda>e. e_page e = 1) (filter_headings shuffled_headings ''plain report'')
       = map (leveled ''plain report'')
           (filter (\<lambda>h. h_page h = 1) (unique_loop shuffled_headings {} []))
   \<and> extract_outline (open_as report_doc) stdout_ok ''report.pdf'' w0
       = (Inr \<lparr>title = [],
               outline = [\<lparr>e_level = ''H1'', e_text = ''Overview'', e_page = 0\<rparr>,
                          \<lparr>e_level = ''H2'', e_text = ''Details'', e_page = 0\<rparr>,
                          \<lparr>e_level = ''H1'', e_text = ''Conclusion'', e_page = 1\<rparr>]\<rparr>,
          \<lparr>console = [], doc_handle = Closed\<rparr>)
   \<and> sorted (map e_page (outline \<lparr>title = [],
               outline = [\<lparr>e_level = ''H1'', e_text = ''Overview'', e_page = 0\<rparr>,
                          \<lparr>e_level = ''H2'', e_text = ''Details'', e_page = 0\<rparr>,
                          \<lparr>e_level = ''H1'', e_text = ''Conclusion'', e_page = 1\<rparr>]\<rparr>))"
proof -
  have a: "\<not> (str_in ''pathway options'' ''plain report'' \<or> str_in ''stem pathways'' ''plain report'')
           \<and> \<not> (str_in ''hope to see you'' ''plain report'' \<or> str_in ''rsvp'' ''plain report'')"
    by code_simp
  have f: "filter_headings shuffled_headings ''plain report''
       = [\<lparr>e_level = ''H2'', e_text = ''Alpha'', e_page = 0\<rparr>,
          \<lparr>e_level = ''H1'', e_text = ''Beta'', e_page = 1\<rparr>,
          \<lparr>e_level = ''H3'', e_text = ''Gamma'', e_page = 1\<rparr>]"
    by code_simp
  have r: "extract_outline (open_as report_doc) stdout_ok ''report.pdf'' w0
       = (Inr \<lparr>title = [],
               outline = [\<lparr>e_level = ''H1'', e_text = ''Overview'', e_page = 0\<rparr>,
                          \<lparr>e_level = ''H2'', e_text = ''Details'', e_page = 0\<rparr>,
                          \<lparr>e_level = ''H1'', e_text = ''Conclusion'', e_page = 1\<rparr>]\<rparr>,
          \<lparr>console = [], doc_handle = Closed\<rparr>)"
    by code_simp
  from outline_sorted_by_page [where hs = shuffled_headings and dt = "''plain report''"
      and k = 1 and fitz_open = "open_as report_doc" and stdout = stdout_ok and pdf_path = "''report.pdf''" and w = w0
      and r = "\<lparr>title = [],
               outline = [\<lparr>e_level = ''H1'', e_text = ''Overview'', e_page = 0\<rparr>,
                          \<lparr>e_level = ''H2'', e_text = ''Details'', e_page = 0\<rparr>,
                          \<lparr>e_level = ''H1'', e_text = ''Conclusion'', e_page = 1\<rparr>]\<rparr>"
      and w' = "\<lparr>console = [], doc_handle = Closed\<rparr>"] a f r
  show ?thesis by blast
qed

text \<open>
  C4. For a document whose lower-cased profile text holds "pathway options" or
  "stem pathways" (key "pathway options"), or else holds "hope to see you" or "rsvp"
  (key "hope to see you there"), the outline has at most one entry. Such an entry has
  level H1 and page 0, its lower-cased text holds the key, and its text is that of a
  unique heading candidate of the document; when no unique candidate holds the key the
  outline is empty.
\<close>

theorem special_profiles_single_entry:
  assumes "concat_text (take (min 3 (length d)) d) [] = Inr doc_text"
    and "extract_headings d = Inr ol"
    and "(str_in ''pathway options'' (lower doc_text) \<or> str_in ''stem pathways'' (lower doc_text))
           \<and> key = ''pathway options''
         \<or> \<not> (str_in ''pathway options'' (lower doc_text) \<or> str_in ''stem pathways'' (lower doc_text))
           \<and> (str_in ''hope to see you'' (lower doc_text) \<or> str_in ''rsvp'' (lower doc_text))
           \<and> key = ''hope to see you there''"
  shows "length ol \<le> 1 \<and>
    (\<forall>e\<in>set ol. e_level e = ''H1'' \<and> e_page e = 0 \<and> str_in key (lower (e_text e)) \<and>
        (\<exists>all. page_loop d 0 (lower doc_text) [] = Inr all
           \<and> e_text e \<in> h_text ` set (unique_loop all {} []))) \<and>
    (\<forall>all. page_loop d 0 (lower doc_text) [] = Inr all
        \<and> (\<forall>h\<in>set (unique_loop all {} []). \<not> str_in key (lower (h_text h)))
        \<longrightarrow> ol = [])"
proof (cases "is_form (lower doc_text)")
  case True
  then have "ol = []" using assms(1,2) by (simp add: extract_headings_def Let_def)
  then show ?thesis by simp
next
  case False
  then obtain all where loop: "page_loop d 0 (lower doc_text) [] = Inr all"
    and ol: "ol = filter_headings all (lower doc_text)"
    using assms(1,2) by (auto simp: extract_headings_def Let_def split: sum.splits)
  have fw: "ol = first_with key (unique_loop all {} [])"
    using assms(3) ol filter_headings_pathway [of "lower doc_text" all]
      filter_headings_rsvp [of "lower doc_text" all]
    by auto
  have a: "length ol \<le> 1" unfolding fw by (rule first_with_length)
  have b: "\<forall>e\<in>set ol. e_level e = ''H1'' \<and> e_page e = 0 \<and> str_in key (lower (e_text e)) \<and>
        (\<exists>all. page_loop d 0 (lower doc_text) [] = Inr all
           \<and> e_text e \<in> h_text ` set (unique_loop all {} []))"
    using first_with_entry [of _ key "unique_loop all {} []"] loop unfolding fw by blast
  have c: "\<forall>all'. page_loop d 0 (lower doc_text) [] = Inr all'
        \<and> (\<forall>h\<in>set (unique_loop all' {} []). \<not> str_in key (lower (h_text h)))
        \<longrightarrow> ol = []"
    using first_with_none [of "unique_loop all {} []" key] loop unfolding fw by auto
  show ?thesis using a b c by blast
qed

text \<open>
  In the flyer of the witness the candidate that holds the key is found on page 1; its
  entry has page 0.
\<close>

theorem special_profiles_single_entry_witness:
  "concat_text (take (min 3 (length flyer_doc)) flyer_doc) []
     = Inr ''STEM Pathways for parentsPathway choices''
   \<and> str_in ''stem pathways'' (lower ''STEM Pathways for parentsPathway choices'')
   \<and> page_loop flyer_doc 0 (lower ''STEM Pathways for parentsPathway choices'') []
       = Inr [\<lparr>h_text = ''PARENTS GUIDE'', h_size = 18, h_bold = True, h_page = 0\<rparr>,
              \<lparr>h_text = ''PATHWAY OPTIONS'', h_size = 20, h_bold = False, h_page = 1\<rparr>]
   \<and> extract_headings flyer_doc
       = Inr [\<lparr>e_level = ''H1'', e_text = ''PATHWAY OPTIONS'', e_page = 0\<rparr>]
   \<and> length [\<lparr>e_level = ''H1'', e_text = ''PATHWAY OPTIONS'', e_page = 0\<rparr>] \<le> 1
   \<and> str_in ''pathway options''
         (lower (e_text \<lparr>e_level = ''H1'', e_text = ''PATHWAY OPTIONS'', e_page = 0\<rparr>))"
proof -
  have a: "concat_text (take (min 3 (length flyer_doc)) flyer_doc) []
     = Inr ''STEM Pathways for parentsPathway choices''"
    by code_simp
  have b: "str_in ''stem pathways'' (lower ''STEM Pathways for parentsPathway choices'')"
    by code_simp
  have c: "page_loop flyer_doc 0 (lower ''STEM Pathways for parentsPathway choices'') []
       = Inr [\<lparr>h_text = ''PARENTS GUIDE'', h_size = 18, h_bold = True, h_page = 0\<rparr>,
              \<lparr>h_text = ''PATHWAY OPTIONS'', h_size = 20, h_bold = False, h_page = 1\<rparr>]"
    by code_simp
  have e: "extract_headings flyer_doc
       = Inr [\<lparr>e_level = ''H1'', e_text = ''PATHWAY OPTIONS'', e_page = 0\<rparr>]"
    by code_simp
  have h: "(str_in ''pathway options'' (lower ''STEM Pathways for parentsPathway choices'')
            \<or> str_in ''stem pathways'' (lower ''STEM Pathways for parentsPathway choices''))
           \<and> ''pathway options'' = ''pathway options''
         \<or> \<not> (str_in ''pathway options'' (lower ''STEM Pathways for parentsPathway choices'')
            \<or> str_in ''stem pathways'' (lower ''STEM Pathways for parentsPathway choices''))
           \<and> (str_in ''hope to see you'' (lower ''STEM Pathways for parentsPathway choices'')
            \<or> str_in ''rsvp'' (lower ''STEM Pathways for parentsPathway choices''))
           \<and> ''pathway options'' = ''hope to see you there''"
    using b by blast
  note t = special_profiles_single_entry [OF a e h]
  from t have l: "length [\<lparr>e_level = ''H1'', e_text = ''PATHWAY OPTIONS'', e_page = 0\<rparr>] \<le> 1"
    by (rule conjunct1)
  from t have "\<forall>e\<in>set [\<lparr>e_level = ''H1'', e_text = ''PATHWAY OPTIONS'', e_page = 0\<rparr>].
      str_in ''pathway options'' (lower (e_text e))"
    by blast
  then have k: "str_in ''pathway options''
         (lower (e_text \<lparr>e_level = ''H1'', e_text = ''PATHWAY OPTIONS'', e_page = 0\<rparr>))"
    by (simp del: entry.simps)
  show ?thesis using a b c e l k by blast
qed

text \<open>
  C7. For a document whose lower-cased profile text holds "rfp" or "digital library"
  and to which neither the form short-circuit nor the two single-entry profiles apply,
  the outline is the unique heading candidates, each levelled by \<open>rfp_level\<close> of its
  text alone, sorted by page. "Executive Summary" is levelled H1, and a profile text that
  holds "RFP" holds "rfp" once lower-cased.
\<close>

theorem rfp_levels:
  assumes "concat_text (take (min 3 (length d)) d) [] = Inr doc_text"
    and "\<not> (str_in ''application form'' (lower doc_text)
            \<or> str_in ''government servant'' (lower doc_text))"
    and "\<not> (str_in ''pathway options'' (lower doc_text) \<or> str_in ''stem pathways'' (lower doc_text))"
    and "\<not> (str_in ''hope to see you'' (lower doc_text) \<or> str_in ''rsvp'' (lower doc_text))"
    and "str_in ''rfp'' (lower doc_text) \<or> str_in ''digital library'' (lower doc_text)"
    and "page_loop d 0 (lower doc_text) [] = Inr all"
  shows "extract_headings d =
           Inr (sort_key e_page
                  (map (\<lambda>h. \<lparr>e_level = rfp_level (h_text h), e_text = h_text h, e_page = h_page h\<rparr>)
                     (unique_loop all {} [])))
         \<and> (\<forall>ol. extract_headings d = Inr ol \<longrightarrow>
               (\<forall>e\<in>set ol. e_level e = rfp_level (e_text e)))
         \<and> rfp_level ''Executive Summary'' = ''H1''
         \<and> (str_in ''RFP'' doc_text \<longrightarrow> str_in ''rfp'' (lower doc_text))"
proof -
  let ?lv = "\<lambda>h. \<lparr>e_level = rfp_level (h_text h), e_text = h_text h, e_page = h_page h\<rparr>"
  have nf: "\<not> is_form (lower doc_text)" using assms(2) by (simp add: is_form_def)
  have "extract_headings d = Inr (filter_headings all (lower doc_text))"
    using assms(1,6) nf by (simp add: extract_headings_def Let_def)
  also have "filter_headings all (lower doc_text)
             = sort_key e_page (map (leveled (lower doc_text)) (unique_loop all {} []))"
    using assms(3,4) by (rule filter_headings_levelled)
  also have "map (leveled (lower doc_text)) (unique_loop all {} [])
             = map ?lv (unique_loop all {} [])"
    using leveled_rfp [OF assms(5)] by simp
  finally have a: "extract_headings d = Inr (sort_key e_page (map ?lv (unique_loop all {} [])))" .
  have b: "\<forall>ol. extract_headings d = Inr ol \<longrightarrow> (\<forall>e\<in>set ol. e_level e = rfp_level (e_text e))"
    unfolding a by auto
  have c: "rfp_level ''Executive Summary'' = ''H1''" by code_simp
  have l: "lower ''RFP'' = ''rfp''" by code_simp
  have e: "str_in ''RFP'' doc_text \<longrightarrow> str_in ''rfp'' (lower doc_text)"
    using str_in_lower [of "''RFP''" doc_text] unfolding l by blast
  show ?thesis using a b c e by blast
qed

text \<open>
  The profile text of the witness holds "RFP" in upper case.
\<close>

theorem rfp_levels_witness:
  "concat_text (take (min 3 (length rfp_doc)) rfp_doc) [] = Inr ''RFP: Request for Proposal''
   \<and> str_in ''RFP'' ''RFP: Request for Proposal''
   \<and> str_in ''rfp'' (lower ''RFP: Request for Proposal'')
   \<and> page_loop rfp_doc 0 (lower ''RFP: Request for Proposal'') []
       = Inr [\<lparr>h_text = ''Executive Summary'', h_size = 12, h_bold = False, h_page = 0\<rparr>,
              \<lparr>h_text = ''Appendix A'', h_size = 12, h_bold = False, h_page = 0\<rparr>,
              \<lparr>h_text = ''Timeline'', h_size = 18, h_bold = True, h_page = 0\<rparr>]
   \<and> extract_headings rfp_doc
       = Inr [\<lparr>e_level = ''H1'', e_text = ''Executive Summary'', e_page = 0\<rparr>,
              \<lparr>e_level = ''H2'', e_text = ''Appendix A'', e_page = 0\<rparr>,
              \<lparr>e_level = ''H3'', e_text = ''Timeline'', e_page = 0\<rparr>]
   \<and> rfp_level ''Executive Summary'' = ''H1''"
proof -
  have a: "concat_text (take (min 3 (length rfp_doc)) rfp_doc) [] = Inr ''RFP: Request for Proposal''"
    by code_simp
  have h2: "\<not> (str_in ''application form'' (lower ''RFP: Request for Proposal'')
            \<or> str_in ''government servant'' (lower ''RFP: Request for Proposal''))"
    by code_simp
  have h3: "\<not> (str_in ''pathway options'' (lower ''RFP: Request for Proposal'')
            \<or> str_in ''stem pathways'' (lower ''RFP: Request for Proposal''))"
    by code_simp
  have h4: "\<not> (str_in ''hope to see you'' (lower ''RFP: Request for Proposal'')
            \<or> str_in ''rsvp'' (lower ''RFP: Request for Proposal''))"
    by code_simp
  have h5: "str_in ''rfp'' (lower ''RFP: Request for Proposal'')" by code_simp
  have u: "str_in ''RFP'' ''RFP: Request for Proposal''" by code_simp
  have h6: "page_loop rfp_doc 0 (lower ''RFP: Request for Proposal'') []
       = Inr [\<lparr>h_text = ''Executive Summary'', h_size = 12, h_bold = False, h_page = 0\<rparr>,
              \<lparr>h_text = ''Appendix A'', h_size = 12, h_bold = False, h_page = 0\<rparr>,
              \<lparr>h_text = ''Timeline'', h_size = 18, h_bold = True, h_page = 0\<rparr>]"
    by code_simp
  have e: "extract_headings rfp_doc
       = Inr [\<lparr>e_level = ''H1'', e_text = ''Executive Summary'', e_page = 0\<rparr>,
              \<lparr>e_level = ''H2'', e_text = ''Appendix A'', e_page = 0\<rparr>,
              \<lparr>e_level = ''H3'', e_text = ''Timeline'', e_page = 0\<rparr>]"
    by code_simp
  from rfp_levels [OF a h2 h3 h4 disjI1 [OF h5] h6] a u h5 h6 e
  show ?thesis by blast
qed

text \<open>
  C3. The title of a document without pages is empty. When the blocks of page 0 can be
  read, the candidates of the source, with their texts and scores, are the title
  candidates of the specification: the blocks with lines whose stripped text is longer
  than 10 and shorter than 200, scored 3 for a bold span, 2 for a greatest font size
  above 16 or else 1 above 14, and 2 for a least top coordinate below 200. If no
  candidate scores above 2 the title is empty; otherwise the title is the stripped text
  of the candidate \<open>best\<close> such that every earlier candidate scores strictly less and
  no later candidate scores more: the first of the highest-scoring ones.
\<close>

theorem title_is_first_best_candidate:
  "(d = [] \<longrightarrow> extract_title d = Inr []) \<and>
   (d \<noteq> [] \<and> get_text_dict (d ! 0) = Inr blocks \<longrightarrow>
      map (\<lambda>c. (c_text c, score c)) (title_candidates blocks) = spec_title_candidates blocks \<and>
      ((\<forall>c\<in>set (spec_title_candidates blocks). snd c \<le> 2) \<longrightarrow> extract_title d = Inr []) \<and>
      (\<not> (\<forall>c\<in>set (spec_title_candidates blocks). snd c \<le> 2) \<longrightarrow>
         (\<exists>pre best post. spec_title_candidates blocks = pre @ best # post
            \<and> (\<forall>c\<in>set pre. snd c < snd best)
            \<and> (\<forall>c\<in>set post. snd c \<le> snd best)
            \<and> extract_title d = Inr (fst best))))"
proof (intro conjI impI)
  assume "d = []"
  then show "extract_title d = Inr []" by (simp add: extract_title_def)
next
  assume a: "d \<noteq> [] \<and> get_text_dict (d ! 0) = Inr blocks"
  show "map (\<lambda>c. (c_text c, score c)) (title_candidates blocks) = spec_title_candidates blocks"
    by (rule title_candidates_spec)
  have s: "((\<forall>c\<in>set (spec_title_candidates blocks). snd c \<le> 2) \<longrightarrow> extract_title d = Inr [])
       \<and> (\<not> (\<forall>c\<in>set (spec_title_candidates blocks). snd c \<le> 2) \<longrightarrow>
            (\<exists>pre best post. spec_title_candidates blocks = pre @ best # post
               \<and> (\<forall>c\<in>set pre. snd c < snd best)
               \<and> (\<forall>c\<in>set post. snd c \<le> snd best)
               \<and> extract_title d = Inr (fst best)))"
    using a extract_title_spec [of d blocks] by blast
  {
    assume "\<forall>c\<in>set (spec_title_candidates blocks). snd c \<le> 2"
    then show "extract_title d = Inr []" using s by blast
  }
  {
    assume "\<not> (\<forall>c\<in>set (spec_title_candidates blocks). snd c \<le> 2)"
    then show "\<exists>pre best post. spec_title_candidates blocks = pre @ best # post
            \<and> (\<forall>c\<in>set pre. snd c < snd best)
            \<and> (\<forall>c\<in>set post. snd c \<le> snd best)
            \<and> extract_title d = Inr (fst best)"
      using s by blast
  }
qed

text \<open>
  On the cover page of the witness two candidates score 7; the title is the first.
\<close>

theorem title_is_first_best_candidate_witness:
  "[cover_page] \<noteq> []
   \<and> get_text_dict ([cover_page] ! 0) = Inr cover_blocks
   \<and> spec_title_candidates cover_blocks
       = [(''This paragraph is body text.'', 0), (''Annual Report 2024'', 7),
          (''Prepared by the Finance Office'', 7), (''Confidential draft'', 4)]
   \<and> map (\<lambda>c. (c_text c, score c)) (title_candidates cover_blocks)
       = spec_title_candidates cover_blocks
   \<and> \<not> (\<forall>c\<in>set (spec_title_candidates cover_blocks). snd c \<le> 2)
   \<and> extract_title [cover_page] = Inr ''Annual Report 2024''
   \<and> (\<exists>pre best post. spec_title_candidates cover_blocks = pre @ best # post
            \<and> (\<forall>c\<in>set pre. snd c < snd best)
            \<and> (\<forall>c\<in>set post. snd c \<le> snd best)
            \<and> extract_title [cover_page] = Inr (fst best))"
proof -
  have a: "[cover_page] \<noteq> []" by simp
  have b: "get_text_dict ([cover_page] ! 0) = Inr cover_blocks"
    by (simp add: cover_page_def mk_page_def)
  have c: "spec_title_candidates cover_blocks
       = [(''This paragraph is body text.'', 0), (''Annual Report 2024'', 7),
          (''Prepared by the Finance Office'', 7), (''Confidential draft'', 4)]"
    by code_simp
  have n: "\<not> (\<forall>c\<in>set (spec_title_candidates cover_blocks). snd c \<le> 2)"
    unfolding c by simp
  have e: "extract_title [cover_page] = Inr ''Annual Report 2024''" by code_simp
  from title_is_first_best_candidate [where d = "[cover_page]" and blocks = cover_blocks]
    a b c n e
  show ?thesis by blast
qed

end
